theory Spec2Isabelle
  imports Complex_Main "HOL-Library.Multiset"
begin

section \<open>Data model\<close>

text \<open>
  A Python \<open>datetime\<close> is modelled as an integer count of milliseconds on the time line
  of its own clock (BSON stores datetimes with millisecond precision, and every
  timestamp the exchange sends is an integer number of milliseconds).  A naive local
  datetime and a POSIX timestamp differ by the UTC offset \<open>tz\<close> of the machine, which is
  taken as constant; \<open>datetime.utcnow()\<close> is the field \<open>utcnow\<close> of the clock, read as a
  naive UTC datetime.  The float arithmetic of \<open>kline[0] / 1000\<close> and of
  \<open>start_date.timestamp() * 1000\<close> is exact on such values and is folded into the two
  conversions below.
\<close>

type_synonym datetime = int

definition ms_per_day :: int where
  "ms_per_day = 86400000"

record clock =
  utcnow :: datetime
  tz :: int

definition fromtimestamp :: "int \<Rightarrow> int \<Rightarrow> datetime" where
  "fromtimestamp z ms = ms + z"

definition timestamp :: "int \<Rightarrow> datetime \<Rightarrow> int" where
  "timestamp z d = d - z"

text \<open>\<open>date.strftime('%Y-%m-%d')\<close>: the calendar day of a datetime.  The string is a
  one-to-one rendering of the day number, which stands for it here.\<close>

definition strftime_ymd :: "datetime \<Rightarrow> int" where
  "strftime_ymd d = d div ms_per_day"

text \<open>\<open>datetime.utcnow().replace(hour=0, minute=0, second=0, microsecond=0)\<close>\<close>

definition utc_midnight :: "clock \<Rightarrow> datetime" where
  "utc_midnight c = utcnow c - utcnow c mod ms_per_day"

text \<open>\<open>datetime(2017, 8, 1)\<close>, a naive local datetime.\<close>

definition binance_launch :: datetime where
  "binance_launch = 1501545600000"

text \<open>One element of the \<open>dayline\<close> array.  Prices are Python floats; they are carried
  as real numbers and never computed with.\<close>

record bar =
  date :: datetime
  open_price :: real
  close_price :: real
  high :: real
  low :: real
  volume :: real

text \<open>One candle of the exchange: \<open>[open_time, open, high, low, close, volume, ...]\<close>,
  the fields \<open>kline[0]\<close> to \<open>kline[5]\<close>.\<close>

record kline =
  open_time :: int
  k_open :: real
  k_high :: real
  k_low :: real
  k_close :: real
  k_volume :: real

text \<open>A stored document.  A document of the collection need not have a \<open>symbol\<close> or a
  \<open>name\<close> field.  A missing \<open>dayline\<close> behaves like an empty one in every operation of
  the program (\<open>.get('dayline')\<close> is falsy, \<open>$push\<close> creates the array), so the field is
  a plain list.\<close>

record doc =
  name :: "string option"
  symbol :: "string option"
  dayline :: "bar list"

text \<open>The request parameters of the candle endpoint; \<open>interval\<close> is always \<open>'1d'\<close> and
  \<open>limit\<close> is always 1000.\<close>

record params =
  p_symbol :: string
  startTime :: "int option"
  endTime :: "int option"

text \<open>The exceptions that occur: a failed request with its message, a missing
  dictionary key, an unbound local variable (\<open>UnboundLocalError\<close>, a \<open>NameError\<close>).\<close>

datatype error =
    RequestException string
  | KeyError string
  | NameError string

text \<open>What one HTTP request yields: the decoded JSON, or a
  \<open>requests.exceptions.RequestException\<close> with its message.\<close>

datatype response = Ok "kline list" | Failed string

text \<open>The exchange is a black box: the answer to the \<open>n\<close>-th request of a run may depend
  on \<open>n\<close> and on the parameters sent.\<close>

type_synonym upstream = "nat \<Rightarrow> params \<Rightarrow> response"

text \<open>What the program does to the outside world, in order: HTTP requests and
  \<open>time.sleep\<close> calls.\<close>

datatype event = Request params | Sleep nat

fun is_request :: "event \<Rightarrow> bool" where
  "is_request (Request p) = True"
| "is_request (Sleep n) = False"

definition request_count :: "event list \<Rightarrow> nat" where
  "request_count evs = length (filter is_request evs)"

text \<open>The two \<open>update_one\<close> calls the program issues: \<open>$set\<close> of the dayline and
  \<open>$push\<close> with \<open>$each\<close> onto it, both selected by symbol.\<close>

datatype db_write = SetDayline string "bar list" | PushDayline string "bar list"

text \<open>The state a run works on: the collection, in its natural order; the requests
  and sleeps so far; the \<open>update_one\<close> calls so far; and the symbols that the per-asset
  handlers of \<open>init_crypto_daily\<close> and \<open>update_crypto_daily\<close> have logged with
  \<open>logger.error\<close>.  The store itself is taken not to fail, and the clock is read as the
  same instant throughout one run.\<close>

record world =
  coll :: "doc list"
  net :: "event list"
  writes :: "db_write list"
  error_log :: "string list"

section \<open>The exchange client\<close>

definition MAX_RETRIES :: nat where
  "MAX_RETRIES = 3"

definition RETRY_DELAY :: nat where
  "RETRY_DELAY = 5"

text \<open>\<open>make_request\<close>: the loop \<open>for attempt in range(MAX_RETRIES)\<close>, from \<open>attempt\<close> on.
  Leaving the loop without a return yields \<open>None\<close>, which every caller only tests for
  truthiness: it is the empty list here.\<close>

function make_request_from ::
  "upstream \<Rightarrow> params \<Rightarrow> nat \<Rightarrow> event list \<Rightarrow> event list \<times> (error + kline list)" where
  "make_request_from up p attempt evs =
     (if attempt < MAX_RETRIES then
        (case up (request_count evs) p of
           Ok js \<Rightarrow> (evs @ [Request p], Inr js)
         | Failed e \<Rightarrow>
             if attempt = MAX_RETRIES - 1 then (evs @ [Request p], Inl (RequestException e))
             else make_request_from up p (attempt + 1) (evs @ [Request p, Sleep RETRY_DELAY]))
      else (evs, Inr []))"
  by pat_completeness auto
termination
  by (relation "measure (\<lambda>(up, p, attempt, evs). MAX_RETRIES - attempt)") auto

definition make_request ::
  "upstream \<Rightarrow> params \<Rightarrow> event list \<Rightarrow> event list \<times> (error + kline list)" where
  "make_request up p evs = make_request_from up p 0 evs"

text \<open>The dictionary \<open>daily_data\<close> built from one candle.\<close>

definition bar_of_kline :: "int \<Rightarrow> kline \<Rightarrow> bar" where
  "bar_of_kline z k =
     \<lparr>date = fromtimestamp z (open_time k), open_price = k_open k, close_price = k_close k,
      high = k_high k, low = k_low k, volume = k_volume k\<rparr>"

text \<open>The body of \<open>for kline in klines\<close>: convert, skip a calendar day already seen.\<close>

fun convert :: "int \<Rightarrow> kline list \<Rightarrow> bar list \<Rightarrow> int set \<Rightarrow> bar list \<times> int set" where
  "convert z [] all_daily_data seen_dates = (all_daily_data, seen_dates)"
| "convert z (k # ks) all_daily_data seen_dates =
     (let d = fromtimestamp z (open_time k); date_str = strftime_ymd d in
      if date_str \<in> seen_dates then convert z ks all_daily_data seen_dates
      else convert z ks (all_daily_data @ [bar_of_kline z k]) (insert date_str seen_dates))"

text \<open>The \<open>while True\<close> loop of \<open>fetch_crypto_daily_binance\<close>.  It need not terminate (an
  exchange that answers every request with a full page keeps it running), so it is a
  partial function: \<open>None\<close> is a run that never returns.  \<open>has_start\<close> is the truth value
  of \<open>start_date\<close>.  The final sort is Python's stable sort on the \<open>date\<close> key.\<close>

partial_function (option) fetch_loop ::
  "upstream \<Rightarrow> int \<Rightarrow> bool \<Rightarrow> params \<Rightarrow> bar list \<Rightarrow> int set \<Rightarrow> event list
     \<Rightarrow> (event list \<times> (error + bar list)) option" where
  "fetch_loop up z has_start ps all_daily_data seen_dates evs =
     (case make_request up ps evs of
        (evs1, Inl e) \<Rightarrow> Some (evs1, Inl e)
      | (evs1, Inr klines) \<Rightarrow>
          if klines = [] then Some (evs1, Inr (sort_key date all_daily_data))
          else
            (case convert z klines all_daily_data seen_dates of
               (all1, seen1) \<Rightarrow>
                 if length klines < 1000 then
                   if \<not> has_start \<and> endTime ps \<noteq> None then
                     if startTime ps = None then Some (evs1, Inl (KeyError ''startTime''))
                     else fetch_loop up z has_start
                            (ps\<lparr>startTime := None, endTime := None\<rparr>) all1 seen1 evs1
                   else Some (evs1, Inr (sort_key date all1))
                 else fetch_loop up z has_start
                        (ps\<lparr>startTime := Some (open_time (last klines) + 1)\<rparr>)
                        all1 seen1 (evs1 @ [Sleep 1])))"

text \<open>\<open>fetch_crypto_daily_binance\<close>: the request parameters, the probe of a full-history
  fetch, the loop.  Its handler logs and re-raises.  A \<open>datetime\<close> is always truthy, so
  \<open>if start_date\<close> tests for \<open>None\<close>.\<close>

definition fetch_crypto_daily_binance ::
  "upstream \<Rightarrow> int \<Rightarrow> string \<Rightarrow> datetime option \<Rightarrow> event list
     \<Rightarrow> (event list \<times> (error + bar list)) option" where
  "fetch_crypto_daily_binance up z symb start_date evs =
     (case start_date of
        Some sd \<Rightarrow>
          fetch_loop up z True
            \<lparr>p_symbol = symb, startTime = Some (timestamp z sd), endTime = None\<rparr> [] {} evs
      | None \<Rightarrow>
          (case make_request up \<lparr>p_symbol = symb, startTime = None, endTime = None\<rparr> evs of
             (evs1, Inl e) \<Rightarrow> Some (evs1, Inl e)
           | (evs1, Inr recent_data) \<Rightarrow>
               fetch_loop up z False
                 (if recent_data \<noteq> [] then
                    \<lparr>p_symbol = symb, startTime = Some (timestamp z binance_launch),
                      endTime = Some (open_time (last recent_data))\<rparr>
                  else \<lparr>p_symbol = symb, startTime = None, endTime = None\<rparr>)
                 [] {} evs1))"

section \<open>The collection\<close>

text \<open>\<open>find_one({'symbol': s})\<close>: the first document whose symbol is \<open>s\<close>.\<close>

definition find_one :: "doc list \<Rightarrow> string \<Rightarrow> doc option" where
  "find_one c s = find (\<lambda>d. symbol d = Some s) c"

text \<open>The projection \<open>{'dayline': {'$slice': -1}}\<close>: the last element only.\<close>

definition slice_last :: "'a list \<Rightarrow> 'a list" where
  "slice_last xs = (if xs = [] then [] else [last xs])"

text \<open>\<open>update_one({'symbol': s}, u)\<close>: the update applied to the first match, if any.\<close>

fun update_one :: "string \<Rightarrow> (doc \<Rightarrow> doc) \<Rightarrow> doc list \<Rightarrow> doc list" where
  "update_one s u [] = []"
| "update_one s u (d # ds) =
     (if symbol d = Some s then u d # ds else d # update_one s u ds)"

definition set_dayline :: "string \<Rightarrow> bar list \<Rightarrow> world \<Rightarrow> world" where
  "set_dayline s bars w =
     w\<lparr>coll := update_one s (\<lambda>d. d\<lparr>dayline := bars\<rparr>) (coll w),
       writes := writes w @ [SetDayline s bars]\<rparr>"

definition push_dayline :: "string \<Rightarrow> bar list \<Rightarrow> world \<Rightarrow> world" where
  "push_dayline s bars w =
     w\<lparr>coll := update_one s (\<lambda>d. d\<lparr>dayline := dayline d @ bars\<rparr>) (coll w),
       writes := writes w @ [PushDayline s bars]\<rparr>"

section \<open>The orchestrator\<close>

text \<open>\<open>fetch_crypto_daily\<close>.  Its handler logs and re-raises, so the exception is
  the result.\<close>

definition fetch_crypto_daily ::
  "upstream \<Rightarrow> clock \<Rightarrow> string \<Rightarrow> datetime option \<Rightarrow> world
     \<Rightarrow> (world \<times> (error + bar list)) option" where
  "fetch_crypto_daily up c symb start_date w =
     (let crypto_data = map_option (\<lambda>d. d\<lparr>dayline := slice_last (dayline d)\<rparr>)
                          (find_one (coll w) symb);
          run = (\<lambda>sd. map_option (\<lambda>(evs, r). (w\<lparr>net := evs\<rparr>, r))
                        (fetch_crypto_daily_binance up (tz c) symb sd (net w)))
      in case crypto_data of
           None \<Rightarrow> run start_date
         | Some d \<Rightarrow>
             if dayline d \<noteq> [] then
               (let last_date = date (hd (dayline d)) in
                if last_date \<ge> utc_midnight c then Some (w, Inr [])
                else run (Some (last_date + ms_per_day)))
             else run start_date)"

text \<open>The statements of the \<open>try\<close> block of \<open>update_crypto_daily\<close> after \<open>symbol\<close> is
  bound.  \<open>crypto\<close> is a document of the snapshot taken before the loop, projected to
  its last bar.\<close>

definition is_fresh :: "datetime \<Rightarrow> doc \<Rightarrow> bool" where
  "is_fresh yesterday crypto \<longleftrightarrow>
     dayline crypto \<noteq> [] \<and> date (hd (dayline crypto)) \<ge> yesterday"

text \<open>\<open>start_date = last_date + timedelta(days=1) if last_date else None\<close>\<close>

definition start_date_for :: "doc \<Rightarrow> datetime option" where
  "start_date_for crypto =
     (if dayline crypto \<noteq> [] then Some (date (hd (dayline crypto)) + ms_per_day) else None)"

definition update_asset ::
  "upstream \<Rightarrow> clock \<Rightarrow> datetime \<Rightarrow> string \<Rightarrow> doc \<Rightarrow> world
     \<Rightarrow> (world \<times> (error + unit)) option" where
  "update_asset up c yesterday symb crypto w =
     (if is_fresh yesterday crypto then Some (w, Inr ())
      else
        (case fetch_crypto_daily up c symb (start_date_for crypto) w of
           None \<Rightarrow> None
         | Some (w1, Inl e) \<Rightarrow> Some (w1, Inl e)
         | Some (w1, Inr daily_data) \<Rightarrow>
             (let w2 = (if daily_data \<noteq> [] then push_dayline symb daily_data w1 else w1)
              in Some (w2\<lparr>net := net w2 @ [Sleep 1]\<rparr>, Inr ()))))"

text \<open>The \<open>for\<close> loop of \<open>update_crypto_daily\<close>.  \<open>symbol_var\<close> is the local variable
  \<open>symbol\<close>: \<open>None\<close> while unbound, and otherwise the value left by the last iteration
  that bound it.  The handler formats \<open>symbol\<close> into its message; a \<open>NameError\<close> raised
  there leaves the loop.\<close>

fun update_loop ::
  "upstream \<Rightarrow> clock \<Rightarrow> datetime \<Rightarrow> string option \<Rightarrow> doc list \<Rightarrow> world
     \<Rightarrow> (world \<times> (error + unit)) option" where
  "update_loop up c yesterday symbol_var [] w = Some (w, Inr ())"
| "update_loop up c yesterday symbol_var (crypto # rest) w =
     (case symbol crypto of
        None \<Rightarrow>
          (case symbol_var of
             None \<Rightarrow> Some (w, Inl (NameError ''symbol''))
           | Some s \<Rightarrow>
               update_loop up c yesterday symbol_var rest (w\<lparr>error_log := error_log w @ [s]\<rparr>))
      | Some symb \<Rightarrow>
          (case update_asset up c yesterday symb crypto w of
             None \<Rightarrow> None
           | Some (w1, Inr u) \<Rightarrow> update_loop up c yesterday (Some symb) rest w1
           | Some (w1, Inl e) \<Rightarrow>
               update_loop up c yesterday (Some symb) rest
                 (w1\<lparr>error_log := error_log w1 @ [symb]\<rparr>)))"

text \<open>\<open>update_crypto_daily\<close>: the snapshot, \<open>yesterday\<close>, the loop.  The outer handler
  logs and re-raises.\<close>

definition update_crypto_daily ::
  "upstream \<Rightarrow> clock \<Rightarrow> world \<Rightarrow> (world \<times> (error + unit)) option" where
  "update_crypto_daily up c w =
     (let cryptos = map (\<lambda>d. d\<lparr>dayline := slice_last (dayline d)\<rparr>) (coll w);
          yesterday = utc_midnight c - ms_per_day
      in update_loop up c yesterday None cryptos w)"

text \<open>The \<open>for\<close> loop of \<open>init_crypto_daily\<close> over the documents of the collection
  (only their symbols are read).  Its handler reads \<open>crypto['symbol']\<close> again, so a
  document without a symbol raises \<open>KeyError\<close> from the handler, which ends the loop.\<close>

fun init_loop ::
  "upstream \<Rightarrow> clock \<Rightarrow> doc list \<Rightarrow> world \<Rightarrow> (world \<times> (error + unit)) option" where
  "init_loop up c [] w = Some (w, Inr ())"
| "init_loop up c (crypto # rest) w =
     (case symbol crypto of
        None \<Rightarrow> Some (w, Inl (KeyError ''symbol''))
      | Some symb \<Rightarrow>
          (case fetch_crypto_daily up c symb None w of
             None \<Rightarrow> None
           | Some (w1, Inl e) \<Rightarrow> init_loop up c rest (w1\<lparr>error_log := error_log w1 @ [symb]\<rparr>)
           | Some (w1, Inr daily_data) \<Rightarrow>
               (let w2 = set_dayline symb daily_data w1
                in init_loop up c rest (w2\<lparr>net := net w2 @ [Sleep 1]\<rparr>))))"

definition init_crypto_daily ::
  "upstream \<Rightarrow> clock \<Rightarrow> world \<Rightarrow> (world \<times> (error + unit)) option" where
  "init_crypto_daily up c w = init_loop up c (coll w) w"

section \<open>Notions used in the statements\<close>

text \<open>The calendar-day key of a bar, as the deduplication computes it.\<close>

definition day_key :: "bar \<Rightarrow> int" where
  "day_key b = strftime_ymd (date b)"

text \<open>The contract of the candle endpoint for \<open>startTime\<close>: an answer to a request
  with a start time holds no candle that opens before it.\<close>

definition respects_start :: "upstream \<Rightarrow> bool" where
  "respects_start up \<longleftrightarrow>
     (\<forall>n p st ks. startTime p = Some st \<longrightarrow> up n p = Ok ks \<longrightarrow>
        (\<forall>k\<in>set ks. st \<le> open_time k))"

text \<open>Every stored dayline has strictly increasing dates.\<close>

definition daylines_strict :: "doc list \<Rightarrow> bool" where
  "daylines_strict ds \<longleftrightarrow> (\<forall>d\<in>set ds. sorted_wrt (<) (map date (dayline d)))"

text \<open>The operations that write daylines, each with the clock of its run, and a
  sequence of them on one collection.  An operation that ends with an exception leaves
  the world it reached, and the next one starts from there.\<close>

datatype operation = Init_crypto_daily clock | Update_crypto_daily clock

fun run_operation ::
  "upstream \<Rightarrow> operation \<Rightarrow> world \<Rightarrow> (world \<times> (error + unit)) option" where
  "run_operation up (Init_crypto_daily c) w = init_crypto_daily up c w"
| "run_operation up (Update_crypto_daily c) w = update_crypto_daily up c w"

fun run_operations :: "upstream \<Rightarrow> operation list \<Rightarrow> world \<Rightarrow> world option" where
  "run_operations up [] w = Some w"
| "run_operations up (op # ops) w =
     (case run_operation up op w of
        None \<Rightarrow> None
      | Some (w1, r) \<Rightarrow> run_operations up ops w1)"

text \<open>The exchange lies outside the program.  For statements about an unchanged
  exchange, a model of its candle endpoint: a fixed candle history per symbol, a request
  answered with the candles inside the requested window, the first 1000 of them when a
  start time is given, the last 1000 otherwise, whatever the number of the request.\<close>

definition in_window :: "params \<Rightarrow> kline \<Rightarrow> bool" where
  "in_window p k \<longleftrightarrow>
     (case startTime p of None \<Rightarrow> True | Some st \<Rightarrow> st \<le> open_time k) \<and>
     (case endTime p of None \<Rightarrow> True | Some e \<Rightarrow> open_time k \<le> e)"

definition candle_endpoint :: "(string \<Rightarrow> kline list) \<Rightarrow> upstream" where
  "candle_endpoint db n p =
     Ok (let ks = filter (in_window p) (db (p_symbol p))
         in if startTime p = None then drop (length ks - 1000) ks else take 1000 ks)"

text \<open>The requests of a trace that name a given symbol, in order.\<close>

fun requests_for :: "string \<Rightarrow> event list \<Rightarrow> params list" where
  "requests_for s [] = []"
| "requests_for s (Request p # evs) =
     (if p_symbol p = s then p # requests_for s evs else requests_for s evs)"
| "requests_for s (Sleep n # evs) = requests_for s evs"

text \<open>Every document has a symbol, and no two documents share one.\<close>

definition well_formed :: "doc list \<Rightarrow> bool" where
  "well_formed ds \<longleftrightarrow> (\<forall>d\<in>set ds. symbol d \<noteq> None) \<and> distinct (map symbol ds)"

text \<open>What an observer of the collection and of the exchange sees of a run.\<close>

definition outcome ::
  "(world \<times> (error + unit)) option \<Rightarrow> (doc list \<times> event list \<times> (error + unit)) option" where
  "outcome x = map_option (\<lambda>(w, r). (coll w, net w, r)) x"

text \<open>The calendar-day key of a candle, as the deduplication computes it.\<close>

definition kline_day :: "int \<Rightarrow> kline \<Rightarrow> int" where
  "kline_day z k = strftime_ymd (fromtimestamp z (open_time k))"

text \<open>A stored asset on which a cycle against the fixed history \<open>db\<close> finds nothing to
  write: without bars, the full-history fetch returns nothing; with bars, it is fresh
  or the history has no candle from the day after its last date on.\<close>

definition settled :: "(string \<Rightarrow> kline list) \<Rightarrow> clock \<Rightarrow> doc \<Rightarrow> bool" where
  "settled db c d \<longleftrightarrow>
     (case symbol d of
        None \<Rightarrow> False
      | Some s \<Rightarrow>
          if dayline d = [] then
            (\<forall>evs. \<exists>evs'. fetch_crypto_daily_binance (candle_endpoint db) (tz c) s None evs
                            = Some (evs', Inr []))
          else utc_midnight c - ms_per_day \<le> date (last (dayline d)) \<or>
               (\<forall>k\<in>set (db s). open_time k + tz c < date (last (dayline d)) + ms_per_day))"

text \<open>The answer of the exchange with history \<open>db\<close> to a request.\<close>

definition answer :: "(string \<Rightarrow> kline list) \<Rightarrow> params \<Rightarrow> kline list" where
  "answer db p = (if startTime p = None
         then drop (length (filter (in_window p) (db (p_symbol p))) - 1000)
                (filter (in_window p) (db (p_symbol p)))
         else take 1000 (filter (in_window p) (db (p_symbol p))))"

section \<open>Example values\<close>

text \<open>Concrete inputs for the instances below: the clock reads 2023-11-15 01:00 UTC on
  a machine on UTC, so today's midnight is 1700006400000 and yesterday's is
  1699920000000.\<close>

definition ex_clock :: clock where
  "ex_clock = \<lparr>utcnow = 1700010000000, tz = 0\<rparr>"

definition ex_bar :: "datetime \<Rightarrow> bar" where
  "ex_bar d = \<lparr>date = d, open_price = 1, close_price = 1, high = 1, low = 1, volume = 1\<rparr>"

definition ex_kline :: "int \<Rightarrow> kline" where
  "ex_kline t = \<lparr>open_time = t, k_open = 1, k_high = 1, k_low = 1, k_close = 1, k_volume = 1\<rparr>"

definition ex_doc :: "string option \<Rightarrow> bar list \<Rightarrow> doc" where
  "ex_doc s bars = \<lparr>name = None, symbol = s, dayline = bars\<rparr>"

definition ex_world :: "doc list \<Rightarrow> world" where
  "ex_world ds = \<lparr>coll = ds, net = [], writes = [], error_log = []\<rparr>"

text \<open>An exchange without any candle.\<close>

definition ex_no_data :: upstream where
  "ex_no_data n p = Ok []"

text \<open>A history of three daily candles: 13, 14 and 15 November 2023.\<close>

definition ex_db :: "string \<Rightarrow> kline list" where
  "ex_db s = (if s = ''BTCUSDT''
              then [ex_kline 1699833600000, ex_kline 1699920000000, ex_kline 1700006400000]
              else [])"


text \<open>Documents, a request and the worlds of a run against \<open>ex_outage\<close>.\<close>

definition ex_stale :: "string \<Rightarrow> doc" where
  "ex_stale s = ex_doc (Some s) [ex_bar 1699833600000]"

definition ex_synced :: "string \<Rightarrow> doc" where
  "ex_synced s = ex_doc (Some s) [ex_bar 1699833600000, ex_bar 1699920000000, ex_bar 1700006400000]"

definition ex_request :: "string \<Rightarrow> event" where
  "ex_request s = Request \<lparr>p_symbol = s, startTime = Some 1699920000000, endTime = None\<rparr>"




text \<open>A document without history, and the trace of its full-history fetch from
  \<open>ex_db\<close>.\<close>

definition ex_new :: "string \<Rightarrow> doc" where
  "ex_new s = ex_doc (Some s) []"

definition ex_full_fetch :: "string \<Rightarrow> event list" where
  "ex_full_fetch s =
     [Request \<lparr>p_symbol = s, startTime = None, endTime = None\<rparr>,
      Request \<lparr>p_symbol = s, startTime = Some 1501545600000, endTime = Some 1700006400000\<rparr>,
      Request \<lparr>p_symbol = s, startTime = None, endTime = None\<rparr>]"






text \<open>The world after the update of one stale asset; the requests for a symbol the
  exchange has no candle for; a history that ends two days ago.\<close>

definition ex_after_update :: world where
  "ex_after_update =
     \<lparr>coll = [ex_synced ''BTCUSDT''], net = [ex_request ''BTCUSDT'', Sleep 1],
      writes = [PushDayline ''BTCUSDT'' [ex_bar 1699920000000, ex_bar 1700006400000]],
      error_log = []\<rparr>"

definition ex_halted :: "string \<Rightarrow> kline list" where
  "ex_halted s = [ex_kline 1699833600000]"

definition ex_unlisted :: "event list" where
  "ex_unlisted =
     [Request \<lparr>p_symbol = ''ETHUSDT'', startTime = None, endTime = None\<rparr>,
      Request \<lparr>p_symbol = ''ETHUSDT'', startTime = None, endTime = None\<rparr>, Sleep 1]"

text \<open>An exchange that answers every request with the candle of 13 November 2023,
  whatever the start time asked for, and the world after one update of a stale asset
  against it.\<close>

definition ex_overlap :: upstream where
  "ex_overlap n p = Ok [ex_kline 1699833600000]"

definition ex_duplicated :: world where
  "ex_duplicated =
     \<lparr>coll = [ex_doc (Some ''BTCUSDT'') [ex_bar 1699833600000, ex_bar 1699833600000]],
      net = [ex_request ''BTCUSDT'', Sleep 1],
      writes = [PushDayline ''BTCUSDT'' [ex_bar 1699833600000]],
      error_log = []\<rparr>"


section \<open>Basic facts\<close>

lemma request_count_append [simp]:
  "request_count (xs @ ys) = request_count xs + request_count ys"
  by (simp add: request_count_def)

lemma request_count_simps [simp]:
  "request_count [] = 0"
  "request_count (Request p # evs) = Suc (request_count evs)"
  "request_count (Sleep n # evs) = request_count evs"
  by (simp_all add: request_count_def)

lemma slice_last_simps [simp]:
  "slice_last [] = []"
  "xs \<noteq> [] \<Longrightarrow> slice_last xs = [last xs]"
  by (simp_all add: slice_last_def)

lemma ex_clock_midnight [simp]: "utc_midnight ex_clock = 1700006400000"
  by (simp add: utc_midnight_def ex_clock_def ms_per_day_def)

section \<open>The exchange client: loop facts\<close>



lemma make_request_cases:
  "make_request up p evs =
     (case up (request_count evs) p of
        Ok js \<Rightarrow> (evs @ [Request p], Inr js)
      | Failed e0 \<Rightarrow>
          (case up (request_count evs + 1) p of
             Ok js \<Rightarrow> (evs @ [Request p, Sleep 5, Request p], Inr js)
           | Failed e1 \<Rightarrow>
               (case up (request_count evs + 2) p of
                  Ok js \<Rightarrow>
                    (evs @ [Request p, Sleep 5, Request p, Sleep 5, Request p], Inr js)
                | Failed e2 \<Rightarrow>
                    (evs @ [Request p, Sleep 5, Request p, Sleep 5, Request p],
                     Inl (RequestException e2)))))"
  unfolding make_request_def
  by (simp add: MAX_RETRIES_def RETRY_DELAY_def split: response.splits)

lemma make_request_Inr:
  "make_request up p evs = (evs1, Inr ks) \<Longrightarrow> \<exists>n. up n p = Ok ks"
  by (auto simp: make_request_cases split: response.splits)

lemma make_request_extends:
  "make_request up p evs = (evs1, r) \<Longrightarrow> \<exists>more. evs1 = evs @ Request p # more"
  by (auto simp: make_request_cases split: response.splits)

lemma convert_day_keys:
  "convert z ks a s = (a1, s1) \<Longrightarrow> s = day_key ` set a \<Longrightarrow> distinct (map day_key a)
     \<Longrightarrow> s1 = day_key ` set a1 \<and> distinct (map day_key a1)"
proof (induction ks arbitrary: a s)
  case Nil
  then show ?case by auto
next
  case (Cons k ks)
  show ?case
  proof (cases "strftime_ymd (fromtimestamp z (open_time k)) \<in> s")
    case True
    with Cons.prems have "convert z ks a s = (a1, s1)" by (simp add: Let_def)
    from Cons.IH [OF this Cons.prems(2,3)] show ?thesis .
  next
    case False
    let ?b = "bar_of_kline z k"
    from False Cons.prems have c: "convert z ks (a @ [?b]) (insert (day_key ?b) s) = (a1, s1)"
      by (simp add: Let_def day_key_def bar_of_kline_def)
    have "insert (day_key ?b) s = day_key ` set (a @ [?b])"
      using Cons.prems(2) by auto
    moreover have "day_key ?b \<notin> s"
      using False by (simp add: day_key_def bar_of_kline_def)
    then have "distinct (map day_key (a @ [?b]))"
      using Cons.prems(2,3) by auto
    ultimately show ?thesis using Cons.IH [OF c] by blast
  qed
qed

lemma convert_dates:
  "convert z ks a s = (a1, s1) \<Longrightarrow>
     date ` set a1 \<subseteq> date ` set a \<union> (\<lambda>k. fromtimestamp z (open_time k)) ` set ks"
proof (induction ks arbitrary: a s)
  case Nil
  then show ?case by simp
next
  case (Cons k ks)
  show ?case
  proof (cases "strftime_ymd (fromtimestamp z (open_time k)) \<in> s")
    case True
    with Cons.prems have "convert z ks a s = (a1, s1)" by (simp add: Let_def)
    from Cons.IH [OF this] show ?thesis by auto
  next
    case False
    let ?b = "bar_of_kline z k"
    from False Cons.prems have c: "convert z ks (a @ [?b]) (insert (strftime_ymd (date ?b)) s) = (a1, s1)"
      by (simp add: Let_def bar_of_kline_def)
    from Cons.IH [OF c] show ?thesis by (auto simp: bar_of_kline_def)
  qed
qed

lemma sort_key_date_strict:
  assumes "distinct (map day_key a)"
  shows "sorted_wrt (<) (map date (sort_key date a))"
proof -
  have "distinct a" "inj_on day_key (set a)"
    using assms by (simp_all add: distinct_map)
  have "inj_on date (set a)"
  proof (rule inj_onI)
    fix x y assume "x \<in> set a" "y \<in> set a" "date x = date y"
    then have "day_key x = day_key y" by (simp add: day_key_def)
    with \<open>inj_on day_key (set a)\<close> \<open>x \<in> set a\<close> \<open>y \<in> set a\<close> show "x = y"
      by (auto dest: inj_onD)
  qed
  with \<open>distinct a\<close> have "distinct (map date (sort_key date a))"
    by (simp add: distinct_map)
  moreover have "sorted (map date (sort_key date a))" by simp
  ultimately show ?thesis by (simp add: strict_sorted_iff)
qed

lemma fetch_loop_induct [consumes 1, case_names error empty stop key_error recent page]:
  assumes run: "fetch_loop up z hs ps a s evs = Some y"
    and error: "\<And>ps a s evs evs1 e.
      make_request up ps evs = (evs1, Inl e) \<Longrightarrow> P ps a s evs (evs1, Inl e)"
    and empty: "\<And>ps a s evs evs1.
      make_request up ps evs = (evs1, Inr []) \<Longrightarrow> P ps a s evs (evs1, Inr (sort_key date a))"
    and stop: "\<And>ps a s evs evs1 klines a1 s1.
      make_request up ps evs = (evs1, Inr klines) \<Longrightarrow> klines \<noteq> [] \<Longrightarrow>
      convert z klines a s = (a1, s1) \<Longrightarrow> length klines < 1000 \<Longrightarrow>
      hs \<or> endTime ps = None \<Longrightarrow> P ps a s evs (evs1, Inr (sort_key date a1))"
    and key_error: "\<And>ps a s evs evs1 klines a1 s1.
      make_request up ps evs = (evs1, Inr klines) \<Longrightarrow> klines \<noteq> [] \<Longrightarrow>
      convert z klines a s = (a1, s1) \<Longrightarrow> length klines < 1000 \<Longrightarrow>
      \<not> hs \<Longrightarrow> endTime ps \<noteq> None \<Longrightarrow> startTime ps = None \<Longrightarrow>
      P ps a s evs (evs1, Inl (KeyError ''startTime''))"
    and recent: "\<And>ps a s evs evs1 klines a1 s1 y.
      make_request up ps evs = (evs1, Inr klines) \<Longrightarrow> klines \<noteq> [] \<Longrightarrow>
      convert z klines a s = (a1, s1) \<Longrightarrow> length klines < 1000 \<Longrightarrow>
      \<not> hs \<Longrightarrow> endTime ps \<noteq> None \<Longrightarrow> startTime ps \<noteq> None \<Longrightarrow>
      P (ps\<lparr>startTime := None, endTime := None\<rparr>) a1 s1 evs1 y \<Longrightarrow> P ps a s evs y"
    and page: "\<And>ps a s evs evs1 klines a1 s1 y.
      make_request up ps evs = (evs1, Inr klines) \<Longrightarrow>
      convert z klines a s = (a1, s1) \<Longrightarrow> \<not> length klines < 1000 \<Longrightarrow>
      P (ps\<lparr>startTime := Some (open_time (last klines) + 1)\<rparr>) a1 s1 (evs1 @ [Sleep 1]) y
      \<Longrightarrow> P ps a s evs y"
  shows "P ps a s evs y"
proof -
  have "up' = up \<longrightarrow> z' = z \<longrightarrow> hs' = hs \<longrightarrow> P ps a s evs y"
    if "fetch_loop up' z' hs' ps a s evs = Some y" for up' z' hs'
  proof (rule fetch_loop.raw_induct
      [where P = "\<lambda>up' z' hs' ps a s evs y. up' = up \<longrightarrow> z' = z \<longrightarrow> hs' = hs \<longrightarrow> P ps a s evs y",
        OF _ that], goal_cases)
    case (1 f up' z' hs' ps a s evs y)
    show ?case
    proof (intro impI)
      assume eqs: "up' = up" "z' = z" "hs' = hs"
      note IH = 1(1) [rule_format, OF _ refl refl refl]
      obtain evs1 r where mr: "make_request up ps evs = (evs1, r)" by fastforce
      show "P ps a s evs y"
      proof (cases r)
        case (Inl e)
        with 1(2) mr eqs error [OF mr [unfolded Inl]] show ?thesis by auto
      next
        case (Inr klines)
        note mr' = mr [unfolded Inr]
        show ?thesis
        proof (cases "klines = []")
          case True
          with 1(2) mr' eqs empty [OF mr' [unfolded True]] show ?thesis by auto
        next
          case False
          obtain a1 s1 where cv: "convert z klines a s = (a1, s1)" by fastforce
          show ?thesis
          proof (cases "length klines < 1000")
            case short: True
            show ?thesis
            proof (cases "\<not> hs \<and> endTime ps \<noteq> None")
              case c: True
              show ?thesis
              proof (cases "startTime ps = None")
                case True
                with 1(2) mr' eqs False cv short c
                  key_error [OF mr' False cv short]
                show ?thesis by auto
              next
                case st: False
                with 1(2) mr' eqs False cv short c
                have "f up z hs (ps\<lparr>startTime := None, endTime := None\<rparr>) a1 s1 evs1 = Some y"
                  by simp
                from IH [OF this] recent [OF mr' False cv short] c st
                show ?thesis by auto
              qed
            next
              case c: False
              with 1(2) mr' eqs False cv short stop [OF mr' False cv short]
              show ?thesis by auto
            qed
          next
            case long: False
            with 1(2) mr' eqs False cv
            have "f up z hs (ps\<lparr>startTime := Some (open_time (last klines) + 1)\<rparr>)
                    a1 s1 (evs1 @ [Sleep 1]) = Some y"
              by simp
            from IH [OF this] page [OF mr' cv long] show ?thesis by auto
          qed
        qed
      qed
    qed
  qed
  with run show ?thesis by blast
qed

lemma fetch_loop_strict_aux:
  assumes "fetch_loop up z hs ps a s evs = Some y"
  shows "s = day_key ` set a \<longrightarrow> distinct (map day_key a) \<longrightarrow>
        (\<forall>evs' bars. y = (evs', Inr bars) \<longrightarrow> sorted_wrt (<) (map date bars))"
  using assms
proof (induction rule: fetch_loop_induct)
  case (error ps a s evs evs1 e)
  then show ?case by simp
next
  case (empty ps a s evs evs1)
  then show ?case by (simp add: sort_key_date_strict)
next
  case (stop ps a s evs evs1 klines a1 s1)
  then show ?case using convert_day_keys [OF stop(3)] by (simp add: sort_key_date_strict)
next
  case (key_error ps a s evs evs1 klines a1 s1)
  then show ?case by simp
next
  case (recent ps a s evs evs1 klines a1 s1 y)
  then show ?case using convert_day_keys [OF recent(3)] by blast
next
  case (page ps a s evs evs1 klines a1 s1 y)
  then show ?case using convert_day_keys [OF page(2)] by blast
qed

lemma fetch_loop_strict:
  assumes "fetch_loop up z hs ps a s evs = Some (evs', Inr bars)"
    and "s = day_key ` set a" and "distinct (map day_key a)"
  shows "sorted_wrt (<) (map date bars)"
  using fetch_loop_strict_aux [OF assms(1)] assms(2,3) by blast



lemma fetch_loop_lower_bound_aux:
  assumes "fetch_loop up z hs ps a s evs = Some y" and "respects_start up" and hs
  shows "(\<exists>st. startTime ps = Some st \<and> b0 \<le> st) \<longrightarrow> (\<forall>b\<in>set a. b0 + z \<le> date b) \<longrightarrow>
        (\<forall>evs' bars. y = (evs', Inr bars) \<longrightarrow> (\<forall>b\<in>set bars. b0 + z \<le> date b))"
  using assms(1)
proof (induction rule: fetch_loop_induct)
  case (error ps a s evs evs1 e)
  then show ?case by simp
next
  case (empty ps a s evs evs1)
  then show ?case by simp
next
  case (stop ps a s evs evs1 klines a1 s1)
  show ?case
  proof (intro impI allI ballI)
    fix evs' bars b
    assume st: "\<exists>st. startTime ps = Some st \<and> b0 \<le> st" and a: "\<forall>b\<in>set a. b0 + z \<le> date b"
      and y: "(evs1, Inr (sort_key date a1)) = (evs', Inr bars)" and b: "b \<in> set bars"
    from y b have "date b \<in> date ` set a1" by auto
    with convert_dates [OF stop(3)]
    consider "date b \<in> date ` set a" | k where "k \<in> set klines" "date b = fromtimestamp z (open_time k)"
      by auto
    then show "b0 + z \<le> date b"
    proof cases
      case 1
      with a show ?thesis by auto
    next
      case 2
      from make_request_Inr [OF stop(1)] obtain n where "up n ps = Ok klines" ..
      with st assms(2) 2(1) have "b0 \<le> open_time k"
        unfolding respects_start_def by fastforce
      with 2(2) show ?thesis by (simp add: fromtimestamp_def)
    qed
  qed
next
  case (key_error ps a s evs evs1 klines a1 s1)
  then show ?case by simp
next
  case (recent ps a s evs evs1 klines a1 s1 y)
  with assms(3) show ?case by simp
next
  case (page ps a s evs evs1 klines a1 s1 y)
  show ?case
  proof (intro impI)
    assume st: "\<exists>st. startTime ps = Some st \<and> b0 \<le> st" and a: "\<forall>b\<in>set a. b0 + z \<le> date b"
    from st obtain st where st': "startTime ps = Some st" "b0 \<le> st" by blast
    from make_request_Inr [OF page(1)] obtain n where n: "up n ps = Ok klines" ..
    from page(3) have ne: "klines \<noteq> []" by auto
    have ks: "\<forall>k\<in>set klines. b0 \<le> open_time k"
      using st' n assms(2) unfolding respects_start_def by fastforce
    with ne have "b0 \<le> open_time (last klines)" by (meson last_in_set)
    then have "b0 \<le> open_time (last klines) + 1" by simp
    moreover have "\<forall>b\<in>set a1. b0 + z \<le> date b"
    proof
      fix b assume "b \<in> set a1"
      with convert_dates [OF page(2)]
      consider "date b \<in> date ` set a" | k where "k \<in> set klines" "date b = fromtimestamp z (open_time k)"
        by auto
      then show "b0 + z \<le> date b"
      proof cases
        case 1
        with a show ?thesis by auto
      next
        case 2
        with ks show ?thesis by (simp add: fromtimestamp_def)
      qed
    qed
    ultimately show "\<forall>evs' bars. y = (evs', Inr bars) \<longrightarrow> (\<forall>b\<in>set bars. b0 + z \<le> date b)"
      using page(4) by simp
  qed
qed

lemma fetch_binance_strict:
  assumes "fetch_crypto_daily_binance up z symb sd evs = Some (evs', Inr bars)"
  shows "sorted_wrt (<) (map date bars)"
proof (cases sd)
  case None
  obtain evs1 r where mr: "make_request up \<lparr>p_symbol = symb, startTime = None, endTime = None\<rparr> evs = (evs1, r)"
    by fastforce
  with assms None obtain recent where "r = Inr recent" by (cases r) (auto simp: fetch_crypto_daily_binance_def)
  with assms None mr show ?thesis
    by (auto simp: fetch_crypto_daily_binance_def elim!: fetch_loop_strict split: if_splits)
next
  case (Some d)
  with assms show ?thesis
    by (auto simp: fetch_crypto_daily_binance_def elim!: fetch_loop_strict)
qed

lemma fetch_binance_lower_bound:
  assumes "fetch_crypto_daily_binance up z symb (Some d) evs = Some (evs', Inr bars)"
    and "respects_start up"
  shows "\<forall>b\<in>set bars. d \<le> date b"
proof -
  from assms(1) have run: "fetch_loop up z True
      \<lparr>p_symbol = symb, startTime = Some (timestamp z d), endTime = None\<rparr> [] {} evs
        = Some (evs', Inr bars)"
    by (simp add: fetch_crypto_daily_binance_def)
  from fetch_loop_lower_bound_aux [OF run assms(2), of "timestamp z d"]
  show ?thesis by (simp add: timestamp_def)
qed

section \<open>The retry policy\<close>

text \<open>
  Claim C7.  Every request goes through \<open>make_request\<close>, which tries at most three
  times, sleeps five seconds between two attempts, returns the first answer it gets,
  and after a third failure raises that failure (the request exception itself, with
  its message) to the caller.
\<close>

theorem make_request_bounded_retry:
  "make_request up p evs =
     (case up (request_count evs) p of
        Ok js \<Rightarrow> (evs @ [Request p], Inr js)
      | Failed e0 \<Rightarrow>
          (case up (request_count evs + 1) p of
             Ok js \<Rightarrow> (evs @ [Request p, Sleep 5, Request p], Inr js)
           | Failed e1 \<Rightarrow>
               (case up (request_count evs + 2) p of
                  Ok js \<Rightarrow>
                    (evs @ [Request p, Sleep 5, Request p, Sleep 5, Request p], Inr js)
                | Failed e2 \<Rightarrow>
                    (evs @ [Request p, Sleep 5, Request p, Sleep 5, Request p],
                     Inl (RequestException e2)))))"
  unfolding make_request_def
  by (simp add: MAX_RETRIES_def RETRY_DELAY_def split: response.splits)

section \<open>The fetch window of \<open>fetch_crypto_daily\<close>\<close>

text \<open>
  Claim C9.  When the stored document of the symbol has bars, \<open>fetch_crypto_daily\<close>
  does not look at its \<open>start_date\<close> argument: if the last stored date is today's UTC
  midnight or later it returns the empty list and the world is unchanged (no request),
  and otherwise it fetches from the last stored date plus one day.  The argument is
  passed on only when there is no stored document or its dayline is empty.
\<close>

theorem fetch_crypto_daily_ignores_start_date:
  "(find_one (coll w) symb = Some d \<and> dayline d \<noteq> [] \<longrightarrow>
      fetch_crypto_daily up c symb start_date w =
        (if date (last (dayline d)) \<ge> utc_midnight c then Some (w, Inr [])
         else map_option (\<lambda>(evs, r). (w\<lparr>net := evs\<rparr>, r))
                (fetch_crypto_daily_binance up (tz c) symb
                   (Some (date (last (dayline d)) + ms_per_day)) (net w))))
   \<and> (find_one (coll w) symb = None \<or>
        (\<exists>d. find_one (coll w) symb = Some d \<and> dayline d = []) \<longrightarrow>
      fetch_crypto_daily up c symb start_date w =
        map_option (\<lambda>(evs, r). (w\<lparr>net := evs\<rparr>, r))
          (fetch_crypto_daily_binance up (tz c) symb start_date (net w)))"
  by (auto simp: fetch_crypto_daily_def Let_def)

theorem fetch_crypto_daily_ignores_start_date_witness:
  "find_one (coll (ex_world [ex_doc (Some ''BTCUSDT'') [ex_bar 1700006400000]])) ''BTCUSDT''
     = Some (ex_doc (Some ''BTCUSDT'') [ex_bar 1700006400000])
   \<and> dayline (ex_doc (Some ''BTCUSDT'') [ex_bar 1700006400000]) \<noteq> []
   \<and> fetch_crypto_daily ex_no_data ex_clock ''BTCUSDT'' (Some 0)
        (ex_world [ex_doc (Some ''BTCUSDT'') [ex_bar 1700006400000]])
     = Some (ex_world [ex_doc (Some ''BTCUSDT'') [ex_bar 1700006400000]], Inr [])
   \<and> find_one (coll (ex_world [])) ''BTCUSDT'' = None
   \<and> fetch_crypto_daily ex_no_data ex_clock ''BTCUSDT'' (Some 0) (ex_world [])
     = map_option (\<lambda>(evs, r). (ex_world []\<lparr>net := evs\<rparr>, r))
         (fetch_crypto_daily_binance ex_no_data (tz ex_clock) ''BTCUSDT'' (Some 0) (net (ex_world [])))"
  using fetch_crypto_daily_ignores_start_date
          [of "ex_world [ex_doc (Some ''BTCUSDT'') [ex_bar 1700006400000]]" "''BTCUSDT''"
              "ex_doc (Some ''BTCUSDT'') [ex_bar 1700006400000]" ex_no_data ex_clock "Some 0"]
        fetch_crypto_daily_ignores_start_date
          [of "ex_world []" "''BTCUSDT''" undefined ex_no_data ex_clock "Some 0"]
  by (simp add: find_one_def ex_world_def ex_doc_def ex_bar_def)

section \<open>The handler of the update loop\<close>

text \<open>
  Claim C10.  When the first document of the collection has no \<open>symbol\<close> field, the
  \<open>KeyError\<close> of the first statement of the \<open>try\<close> block reaches the handler while the
  variable \<open>symbol\<close> is still unbound; the handler raises \<open>NameError\<close>, and
  \<open>update_crypto_daily\<close> ends with that exception without looking at any other
  document.
\<close>

theorem update_crypto_daily_unbound_symbol:
  "coll w = crypto # rest \<Longrightarrow> symbol crypto = None \<Longrightarrow>
     update_crypto_daily up c w = Some (w, Inl (NameError ''symbol''))"
  by (simp add: update_crypto_daily_def Let_def)

theorem update_crypto_daily_unbound_symbol_witness:
  "coll (ex_world [ex_doc None [], ex_doc (Some ''BTCUSDT'') []])
     = ex_doc None [] # [ex_doc (Some ''BTCUSDT'') []]
   \<and> symbol (ex_doc None []) = None
   \<and> update_crypto_daily ex_no_data ex_clock (ex_world [ex_doc None [], ex_doc (Some ''BTCUSDT'') []])
     = Some (ex_world [ex_doc None [], ex_doc (Some ''BTCUSDT'') []], Inl (NameError ''symbol''))"
  using update_crypto_daily_unbound_symbol
          [of "ex_world [ex_doc None [], ex_doc (Some ''BTCUSDT'') []]"
              "ex_doc None []" "[ex_doc (Some ''BTCUSDT'') []]" ex_no_data ex_clock]
  by (simp add: ex_world_def ex_doc_def)

section \<open>Daylines stay strictly increasing\<close>


lemma fetch_crypto_daily_frame:
  assumes "fetch_crypto_daily up c symb sd w = Some (w', r)"
  shows "\<exists>evs. w' = w\<lparr>net := evs\<rparr>"
  using assms
  by (auto simp: fetch_crypto_daily_def Let_def split: option.splits if_splits)
     (metis world.surjective world.update_convs(2))

lemma fetch_crypto_daily_strict:
  assumes "fetch_crypto_daily up c symb sd w = Some (w', Inr bars)"
  shows "sorted_wrt (<) (map date bars)"
  using assms
  by (auto simp: fetch_crypto_daily_def Let_def split: option.splits if_splits
           dest: fetch_binance_strict)

lemma fetch_crypto_daily_after_last:
  assumes "fetch_crypto_daily up c symb sd w = Some (w', Inr bars)"
    and "respects_start up"
    and "find_one (coll w) symb = Some d" and "dayline d \<noteq> []"
  shows "\<forall>b\<in>set bars. date (last (dayline d)) + ms_per_day \<le> date b"
  using assms
  by (auto simp: fetch_crypto_daily_def Let_def split: option.splits if_splits
           dest: fetch_binance_lower_bound)

lemma update_one_members:
  "d' \<in> set (update_one s u ds) \<Longrightarrow>
     d' \<in> set ds \<or> (\<exists>d. find_one ds s = Some d \<and> d' = u d)"
  by (induction ds) (auto simp: find_one_def split: if_splits)

lemma strictly_dated_append:
  assumes "sorted_wrt (<) (map date xs)" "sorted_wrt (<) (map date ys)"
    and "xs \<noteq> [] \<Longrightarrow> \<forall>b\<in>set ys. date (last xs) < date b"
  shows "sorted_wrt (<) (map date (xs @ ys))"
proof (cases "xs = []")
  case True
  with assms show ?thesis by simp
next
  case False
  have "date x \<le> date (last xs)" if "x \<in> set xs" for x
  proof -
    from assms(1) have "sorted (map date xs)" by (simp add: strict_sorted_iff)
    moreover from that obtain i where "i < length xs" "xs ! i = x" by (auto simp: in_set_conv_nth)
    ultimately have "map date xs ! i \<le> map date xs ! (length xs - 1)"
      by (intro sorted_nth_mono) auto
    with \<open>i < length xs\<close> \<open>xs ! i = x\<close> False show ?thesis by (simp add: last_conv_nth)
  qed
  with assms(3) [OF False] have "\<forall>x\<in>set xs. \<forall>y\<in>set ys. date x < date y" by fastforce
  with assms(1,2) show ?thesis by (simp add: sorted_wrt_append)
qed


lemma update_asset_cases [consumes 1, case_names fresh failed no_data pushed]:
  assumes "update_asset up c y symb crypto w = Some (w', r)"
  obtains (fresh) "is_fresh y crypto" "w' = w" "r = Inr ()"
  | (failed) w1 e where "\<not> is_fresh y crypto"
      "fetch_crypto_daily up c symb (start_date_for crypto) w = Some (w1, Inl e)"
      "w' = w1" "r = Inl e"
  | (no_data) w1 where "\<not> is_fresh y crypto"
      "fetch_crypto_daily up c symb (start_date_for crypto) w = Some (w1, Inr [])"
      "w' = w1\<lparr>net := net w1 @ [Sleep 1]\<rparr>" "r = Inr ()"
  | (pushed) w1 daily_data where "\<not> is_fresh y crypto"
      "fetch_crypto_daily up c symb (start_date_for crypto) w = Some (w1, Inr daily_data)"
      "daily_data \<noteq> []"
      "w' = (push_dayline symb daily_data w1)\<lparr>net := net w1 @ [Sleep 1]\<rparr>" "r = Inr ()"
proof (cases "is_fresh y crypto")
  case True
  with assms fresh show ?thesis by (simp add: update_asset_def)
next
  case False
  from assms False have run: "(case fetch_crypto_daily up c symb (start_date_for crypto) w of
              None \<Rightarrow> None
            | Some (w1, Inl e) \<Rightarrow> Some (w1, Inl e)
            | Some (w1, Inr daily_data) \<Rightarrow>
                (let w2 = (if daily_data \<noteq> [] then push_dayline symb daily_data w1 else w1)
                 in Some (w2\<lparr>net := net w2 @ [Sleep 1]\<rparr>, Inr ()))) = Some (w', r)"
    unfolding update_asset_def by simp
  show ?thesis
  proof (cases "fetch_crypto_daily up c symb (start_date_for crypto) w")
    case None
    with run show ?thesis by simp
  next
    case (Some p)
    obtain w1 r1 where p: "p = (w1, r1)" by (cases p)
    show ?thesis
    proof (cases r1)
      case (Inl e)
      with Some p
      have f: "fetch_crypto_daily up c symb (start_date_for crypto) w = Some (w1, Inl e)" by simp
      with run have "w' = w1 \<and> r = Inl e" by simp
      with f False failed show ?thesis by blast
    next
      case (Inr daily_data)
      with Some p
      have f: "fetch_crypto_daily up c symb (start_date_for crypto) w = Some (w1, Inr daily_data)"
        by simp
      show ?thesis
      proof (cases "daily_data = []")
        case True
        with run f have "w' = w1\<lparr>net := net w1 @ [Sleep 1]\<rparr> \<and> r = Inr ()" by simp
        with f True False no_data show ?thesis by blast
      next
        case ne: False
        with run f
        have "w' = (push_dayline symb daily_data w1)\<lparr>net := net w1 @ [Sleep 1]\<rparr> \<and> r = Inr ()"
          by (simp add: push_dayline_def)
        with f ne False pushed show ?thesis by blast
      qed
    qed
  qed
qed

lemma update_asset_strict:
  assumes run: "update_asset up c y symb crypto w = Some (w', r)"
    and up: "respects_start up" and inv: "daylines_strict (coll w)"
  shows "daylines_strict (coll w')"
  using run
proof (cases rule: update_asset_cases)
  case fresh
  with inv show ?thesis by simp
next
  case (failed w1 e)
  with fetch_crypto_daily_frame [OF failed(2)] inv show ?thesis by auto
next
  case (no_data w1)
  with fetch_crypto_daily_frame [OF no_data(2)] inv show ?thesis by auto
next
  case (pushed w1 daily_data)
  from fetch_crypto_daily_frame [OF pushed(2)] have c1: "coll w1 = coll w" by auto
  with pushed(4)
  have cw: "coll w' = update_one symb (\<lambda>d. d\<lparr>dayline := dayline d @ daily_data\<rparr>) (coll w)"
    by (simp add: push_dayline_def)
  have sd: "sorted_wrt (<) (map date daily_data)"
    using fetch_crypto_daily_strict [OF pushed(2)] .
  show ?thesis
    unfolding daylines_strict_def
  proof
    fix d' assume "d' \<in> set (coll w')"
    with cw have "d' \<in> set (update_one symb (\<lambda>d. d\<lparr>dayline := dayline d @ daily_data\<rparr>) (coll w))"
      by simp
    from update_one_members [OF this]
    consider "d' \<in> set (coll w)"
      | d where "find_one (coll w) symb = Some d" "d' = d\<lparr>dayline := dayline d @ daily_data\<rparr>"
      by blast
    then show "sorted_wrt (<) (map date (dayline d'))"
    proof cases
      case 1
      with inv show ?thesis by (simp add: daylines_strict_def)
    next
      case 2
      from 2(1) have "d \<in> set (coll w)"
        by (auto simp: find_one_def find_Some_iff)
      with inv have sx: "sorted_wrt (<) (map date (dayline d))" by (simp add: daylines_strict_def)
      have "\<forall>b\<in>set daily_data. date (last (dayline d)) < date b" if "dayline d \<noteq> []"
        using fetch_crypto_daily_after_last [OF pushed(2) up 2(1) that]
        by (auto simp: ms_per_day_def)
      from strictly_dated_append [OF sx sd this] 2(2) show ?thesis by simp
    qed
  qed
qed

lemma update_loop_strict:
  assumes "update_loop up c y v cs w = Some (w', r)"
    and "respects_start up" and "daylines_strict (coll w)"
  shows "daylines_strict (coll w')"
  using assms
proof (induction cs arbitrary: w v)
  case Nil
  then show ?case by simp
next
  case (Cons crypto rest)
  show ?case
  proof (cases "symbol crypto")
    case None
    show ?thesis
    proof (cases v)
      case n: None
      with None Cons.prems show ?thesis by simp
    next
      case (Some s)
      with None Cons.prems have "update_loop up c y v rest (w\<lparr>error_log := error_log w @ [s]\<rparr>) = Some (w', r)"
        by simp
      from Cons.IH [OF this Cons.prems(2)] Cons.prems(3) show ?thesis by simp
    qed
  next
    case (Some symb)
    with Cons.prems(1) obtain w1 r1 where ua: "update_asset up c y symb crypto w = Some (w1, r1)"
      by (auto split: option.splits)
    from update_asset_strict [OF ua Cons.prems(2,3)] have inv1: "daylines_strict (coll w1)" .
    show ?thesis
    proof (cases r1)
      case (Inl e)
      with Some ua Cons.prems(1)
      have "update_loop up c y (Some symb) rest (w1\<lparr>error_log := error_log w1 @ [symb]\<rparr>) = Some (w', r)"
        by simp
      from Cons.IH [OF this Cons.prems(2)] inv1 show ?thesis by simp
    next
      case (Inr u)
      with Some ua Cons.prems(1)
      have "update_loop up c y (Some symb) rest w1 = Some (w', r)" by simp
      from Cons.IH [OF this Cons.prems(2) inv1] show ?thesis .
    qed
  qed
qed

lemma init_loop_strict:
  assumes "init_loop up c cs w = Some (w', r)" and "daylines_strict (coll w)"
  shows "daylines_strict (coll w')"
  using assms
proof (induction cs arbitrary: w)
  case Nil
  then show ?case by simp
next
  case (Cons crypto rest)
  show ?case
  proof (cases "symbol crypto")
    case None
    with Cons.prems show ?thesis by simp
  next
    case (Some symb)
    with Cons.prems(1) obtain w1 r1 where f: "fetch_crypto_daily up c symb None w = Some (w1, r1)"
      by (auto split: option.splits)
    from fetch_crypto_daily_frame [OF f] have c1: "coll w1 = coll w" by auto
    show ?thesis
    proof (cases r1)
      case (Inl e)
      with Some f Cons.prems(1)
      have "init_loop up c rest (w1\<lparr>error_log := error_log w1 @ [symb]\<rparr>) = Some (w', r)"
        by simp
      from Cons.IH [OF this] c1 Cons.prems(2) show ?thesis by simp
    next
      case (Inr daily_data)
      let ?w2 = "set_dayline symb daily_data w1"
      from Inr Some f Cons.prems(1)
      have run: "init_loop up c rest (?w2\<lparr>net := net ?w2 @ [Sleep 1]\<rparr>) = Some (w', r)"
        by (simp add: Let_def)
      have sd: "sorted_wrt (<) (map date daily_data)"
        using fetch_crypto_daily_strict f Inr by blast
      have "daylines_strict (coll ?w2)"
        unfolding daylines_strict_def
      proof
        fix d' assume "d' \<in> set (coll ?w2)"
        then have "d' \<in> set (update_one symb (\<lambda>d. d\<lparr>dayline := daily_data\<rparr>) (coll w))"
          by (simp add: set_dayline_def c1)
        with update_one_members
        consider "d' \<in> set (coll w)" | d where "d' = d\<lparr>dayline := daily_data\<rparr>"
          by metis
        then show "sorted_wrt (<) (map date (dayline d'))"
          using Cons.prems(2) sd by cases (simp_all add: daylines_strict_def)
      qed
      with Cons.IH [OF run] show ?thesis by simp
    qed
  qed
qed

lemma run_operation_strict:
  assumes "run_operation up op w = Some (w', r)"
    and "respects_start up" and "daylines_strict (coll w)"
  shows "daylines_strict (coll w')"
  using assms
  by (cases op)
     (auto simp: init_crypto_daily_def update_crypto_daily_def Let_def
           dest: init_loop_strict update_loop_strict)

lemmas ex_simps = candle_endpoint_def in_window_def ex_db_def ex_world_def ex_doc_def ex_bar_def ex_kline_def
  ex_clock_def bar_of_kline_def ms_per_day_def timestamp_def fromtimestamp_def strftime_ymd_def binance_launch_def

lemmas ex_run_simps = update_asset_def is_fresh_def start_date_for_def fetch_crypto_daily_def
  fetch_crypto_daily_binance_def fetch_loop.simps make_request_cases find_one_def
  push_dayline_def set_dayline_def Let_def utc_midnight_def ex_simps ex_stale_def ex_synced_def
  ex_request_def

lemma ex_fetch_incremental:
  "fetch_crypto_daily_binance (candle_endpoint ex_db) 0 ''BTCUSDT'' (Some 1699920000000) []
     = Some ([Request \<lparr>p_symbol = ''BTCUSDT'', startTime = Some 1699920000000, endTime = None\<rparr>],
             Inr [ex_bar 1699920000000, ex_bar 1700006400000])"
  by (simp add: fetch_crypto_daily_binance_def fetch_loop.simps make_request_cases ex_simps)

lemma ex_fetch_full:
  "fetch_crypto_daily_binance (candle_endpoint ex_db) 0 ''BTCUSDT'' None []
     = Some ([Request \<lparr>p_symbol = ''BTCUSDT'', startTime = None, endTime = None\<rparr>,
              Request \<lparr>p_symbol = ''BTCUSDT'', startTime = Some 1501545600000,
                        endTime = Some 1700006400000\<rparr>,
              Request \<lparr>p_symbol = ''BTCUSDT'', startTime = None, endTime = None\<rparr>],
             Inr [ex_bar 1699833600000, ex_bar 1699920000000, ex_bar 1700006400000])"
  by (simp add: fetch_crypto_daily_binance_def fetch_loop.simps make_request_cases ex_simps)

lemma ex_update_stale:
  "update_crypto_daily (candle_endpoint ex_db) ex_clock
         (ex_world [ex_doc (Some ''BTCUSDT'') [ex_bar 1699833600000]])
   = Some (\<lparr>coll = [ex_doc (Some ''BTCUSDT'')
                      [ex_bar 1699833600000, ex_bar 1699920000000, ex_bar 1700006400000]],
            net = [Request \<lparr>p_symbol = ''BTCUSDT'', startTime = Some 1699920000000, endTime = None\<rparr>,
                   Sleep 1],
            writes = [PushDayline ''BTCUSDT'' [ex_bar 1699920000000, ex_bar 1700006400000]],
            error_log = []\<rparr>, Inr ())"
  using ex_fetch_incremental
  by (simp add: update_crypto_daily_def update_asset_def is_fresh_def start_date_for_def
        fetch_crypto_daily_def find_one_def push_dayline_def Let_def ex_world_def ex_doc_def ex_bar_def ex_clock_def
        ms_per_day_def utc_midnight_def)

lemma respects_start_candle_endpoint: "respects_start (candle_endpoint db)"
  by (auto simp: respects_start_def candle_endpoint_def in_window_def Let_def dest: in_set_takeD)

text \<open>
  Claim C1, amended.  The merge of \<open>update_crypto_daily\<close> appends what the fetch returned
  without comparing it with the stored bars; what keeps the dates apart is the start time
  of the request, one day after the last stored date.  So the invariant holds against an
  exchange that keeps the \<open>startTime\<close> contract: from a collection whose daylines have
  strictly increasing dates (the empty daylines of new documents among them), every
  sequence of \<open>init_crypto_daily\<close> and \<open>update_crypto_daily\<close> runs that returns keeps
  the dates of every stored dayline strictly increasing: no two bars of an asset share a
  date, and each dayline is sorted ascending, also right after a merge.
\<close>

theorem dayline_dates_strictly_increasing:
  "respects_start up \<Longrightarrow> daylines_strict (coll w) \<Longrightarrow>
     run_operations up ops w = Some w' \<Longrightarrow> daylines_strict (coll w')"
proof (induction ops arbitrary: w)
  case Nil
  then show ?case by simp
next
  case (Cons op ops)
  from Cons.prems(3) obtain w1 r where op: "run_operation up op w = Some (w1, r)"
    and rest: "run_operations up ops w1 = Some w'"
    by (auto split: option.splits)
  from run_operation_strict [OF op Cons.prems(1,2)] Cons.IH [OF Cons.prems(1) _ rest]
  show ?case by blast
qed

theorem dayline_dates_strictly_increasing_witness:
  "respects_start (candle_endpoint ex_db)
   \<and> daylines_strict (coll (ex_world [ex_doc (Some ''BTCUSDT'') [ex_bar 1699833600000]]))
   \<and> run_operations (candle_endpoint ex_db) [Update_crypto_daily ex_clock]
        (ex_world [ex_doc (Some ''BTCUSDT'') [ex_bar 1699833600000]])
      = Some \<lparr>coll = [ex_doc (Some ''BTCUSDT'')
                        [ex_bar 1699833600000, ex_bar 1699920000000, ex_bar 1700006400000]],
             net = [Request \<lparr>p_symbol = ''BTCUSDT'', startTime = Some 1699920000000,
                             endTime = None\<rparr>, Sleep 1],
             writes = [PushDayline ''BTCUSDT'' [ex_bar 1699920000000, ex_bar 1700006400000]],
             error_log = []\<rparr>
   \<and> daylines_strict
        [ex_doc (Some ''BTCUSDT'')
           [ex_bar 1699833600000, ex_bar 1699920000000, ex_bar 1700006400000]]"
proof -
  let ?w = "ex_world [ex_doc (Some ''BTCUSDT'') [ex_bar 1699833600000]]"
  have a: "respects_start (candle_endpoint ex_db)" by (rule respects_start_candle_endpoint)
  have b: "daylines_strict (coll ?w)"
    by (simp add: daylines_strict_def ex_world_def ex_doc_def)
  have c: "run_operations (candle_endpoint ex_db) [Update_crypto_daily ex_clock] ?w
      = Some \<lparr>coll = [ex_doc (Some ''BTCUSDT'')
                        [ex_bar 1699833600000, ex_bar 1699920000000, ex_bar 1700006400000]],
             net = [Request \<lparr>p_symbol = ''BTCUSDT'', startTime = Some 1699920000000,
                             endTime = None\<rparr>, Sleep 1],
             writes = [PushDayline ''BTCUSDT'' [ex_bar 1699920000000, ex_bar 1700006400000]],
             error_log = []\<rparr>"
    by (simp add: ex_update_stale)
  from dayline_dates_strictly_increasing [OF a b c] a b c show ?thesis by simp
qed

lemma ex_overlap_run:
  "update_crypto_daily ex_overlap ex_clock (ex_world [ex_stale ''BTCUSDT''])
     = Some (ex_duplicated, Inr ())"
  by (simp add: update_crypto_daily_def ex_run_simps ex_overlap_def ex_duplicated_def)

lemma ex_overlap_breaks_contract: "\<not> respects_start ex_overlap"
proof
  assume "respects_start ex_overlap"
  then have "\<forall>k\<in>set [ex_kline 1699833600000]. (1699920000000::int) \<le> open_time k"
    unfolding respects_start_def
    by (elim allE [of _ 0]
          allE [of _ "\<lparr>p_symbol = ''BTCUSDT'', startTime = Some 1699920000000, endTime = None\<rparr>"]
          allE [of _ "1699920000000"] allE [of _ "[ex_kline 1699833600000]"])
       (simp add: ex_overlap_def)
  then show False by (simp add: ex_kline_def)
qed

text \<open>
  Claim C1 as stated, after any sequence of operations, does not hold: the invariant
  rests on the answers of the exchange.  One asset whose last stored bar is that of
  13 November is updated on 15 November; the request asks for candles from 14 November
  on, the exchange answers with the candle of 13 November, and the merge appends it:
  the stored dayline then holds that date twice.
\<close>

theorem overlapping_answer_duplicates_date_counterexample:
  "daylines_strict (coll (ex_world [ex_stale ''BTCUSDT'']))
   \<and> run_operations ex_overlap [Update_crypto_daily ex_clock] (ex_world [ex_stale ''BTCUSDT''])
       = Some ex_duplicated
   \<and> coll ex_duplicated
       = [ex_doc (Some ''BTCUSDT'') [ex_bar 1699833600000, ex_bar 1699833600000]]
   \<and> \<not> daylines_strict (coll ex_duplicated)
   \<and> \<not> respects_start ex_overlap"
  using ex_overlap_breaks_contract
  by (simp add: ex_overlap_run)
     (simp add: daylines_strict_def ex_duplicated_def ex_world_def ex_stale_def ex_doc_def ex_bar_def)

section \<open>One asset, one cycle\<close>

text \<open>
  Claim C6.  One cycle of one asset changes the collection by at most one
  \<open>update_one\<close> call.  If the asset is fresh, or the fetch raises, or the fetch returns
  the empty list, the collection and the list of writes are unchanged.  If the fetch
  returns bars, they are in strictly ascending date order and a single \<open>$push\<close> appends
  all of them to the dayline of the stored document of the symbol.
\<close>

theorem update_asset_single_append:
  assumes "update_asset up c y symb crypto w = Some (w', r)"
  shows "(is_fresh y crypto \<and> w' = w \<and> r = Inr ())
   \<or> (\<exists>w1 e. fetch_crypto_daily up c symb (start_date_for crypto) w = Some (w1, Inl e)
         \<and> r = Inl e \<and> coll w' = coll w \<and> writes w' = writes w)
   \<or> (\<exists>w1. fetch_crypto_daily up c symb (start_date_for crypto) w = Some (w1, Inr [])
         \<and> r = Inr () \<and> coll w' = coll w \<and> writes w' = writes w)
   \<or> (\<exists>w1 bars. fetch_crypto_daily up c symb (start_date_for crypto) w = Some (w1, Inr bars)
         \<and> bars \<noteq> [] \<and> sorted_wrt (<) (map date bars) \<and> r = Inr ()
         \<and> coll w' = update_one symb (\<lambda>d. d\<lparr>dayline := dayline d @ bars\<rparr>) (coll w)
         \<and> writes w' = writes w @ [PushDayline symb bars])"
  using assms
proof (cases rule: update_asset_cases)
  case fresh
  then show ?thesis by simp
next
  case (failed w1 e)
  with fetch_crypto_daily_frame [OF failed(2)] show ?thesis by auto
next
  case (no_data w1)
  with fetch_crypto_daily_frame [OF no_data(2)] show ?thesis by auto
next
  case (pushed w1 daily_data)
  from fetch_crypto_daily_frame [OF pushed(2)] obtain evs where w1: "w1 = w\<lparr>net := evs\<rparr>" ..
  have "coll w' = update_one symb (\<lambda>d. d\<lparr>dayline := dayline d @ daily_data\<rparr>) (coll w)"
    "writes w' = writes w @ [PushDayline symb daily_data]"
    using pushed(4) w1 by (simp_all add: push_dayline_def)
  with pushed fetch_crypto_daily_strict [OF pushed(2)] show ?thesis by blast
qed

lemma ex_update_asset_stale:
  "update_asset (candle_endpoint ex_db) ex_clock 1699920000000 ''BTCUSDT'' (ex_stale ''BTCUSDT'')
     (ex_world [ex_stale ''BTCUSDT''])
   = Some (\<lparr>coll = [ex_synced ''BTCUSDT''], net = [ex_request ''BTCUSDT'', Sleep 1],
            writes = [PushDayline ''BTCUSDT'' [ex_bar 1699920000000, ex_bar 1700006400000]],
            error_log = []\<rparr>, Inr ())"
  by (simp add: ex_run_simps)

theorem update_asset_single_append_witness:
  "update_asset (candle_endpoint ex_db) ex_clock 1699920000000 ''BTCUSDT'' (ex_stale ''BTCUSDT'')
     (ex_world [ex_stale ''BTCUSDT''])
   = Some (\<lparr>coll = [ex_synced ''BTCUSDT''], net = [ex_request ''BTCUSDT'', Sleep 1],
            writes = [PushDayline ''BTCUSDT'' [ex_bar 1699920000000, ex_bar 1700006400000]],
            error_log = []\<rparr>, Inr ())
   \<and> \<not> is_fresh 1699920000000 (ex_stale ''BTCUSDT'')
   \<and> (\<exists>w1 bars.
        fetch_crypto_daily (candle_endpoint ex_db) ex_clock ''BTCUSDT''
          (start_date_for (ex_stale ''BTCUSDT'')) (ex_world [ex_stale ''BTCUSDT''])
          = Some (w1, Inr bars)
        \<and> bars = [ex_bar 1699920000000, ex_bar 1700006400000])"
  using update_asset_single_append [OF ex_update_asset_stale]
  by (auto simp: ex_run_simps)

section \<open>The requests of a run\<close>

lemma requests_for_append [simp]:
  "requests_for s (xs @ ys) = requests_for s xs @ requests_for s ys"
  by (induction s xs rule: requests_for.induct) auto








lemma fetch_crypto_daily_stored:
  "find_one (coll w) symb = Some d \<Longrightarrow> dayline d \<noteq> [] \<Longrightarrow>
      fetch_crypto_daily up c symb start_date w =
        (if date (last (dayline d)) \<ge> utc_midnight c then Some (w, Inr [])
         else map_option (\<lambda>(evs, r). (w\<lparr>net := evs\<rparr>, r))
                (fetch_crypto_daily_binance up (tz c) symb
                   (Some (date (last (dayline d)) + ms_per_day)) (net w)))"
  by (auto simp: fetch_crypto_daily_def Let_def)

lemma fetch_crypto_daily_not_stored:
  "find_one (coll w) symb = None \<or> (\<exists>d. find_one (coll w) symb = Some d \<and> dayline d = []) \<Longrightarrow>
      fetch_crypto_daily up c symb start_date w =
        map_option (\<lambda>(evs, r). (w\<lparr>net := evs\<rparr>, r))
          (fetch_crypto_daily_binance up (tz c) symb start_date (net w))"
  by (auto simp: fetch_crypto_daily_def Let_def)


lemma find_one_update_one_other:
  "s' \<noteq> s \<Longrightarrow> (\<And>d. symbol (u d) = symbol d) \<Longrightarrow>
     find_one (update_one s u ds) s' = find_one ds s'"
  by (induction ds) (auto simp: find_one_def)

lemma symbols_update_one:
  "(\<And>d. symbol (u d) = symbol d) \<Longrightarrow> map symbol (update_one s u ds) = map symbol ds"
  by (induction ds) auto

lemma update_asset_other:
  assumes "update_asset up c y symb crypto w = Some (w', r)" and "s' \<noteq> symb"
  shows "find_one (coll w') s' = find_one (coll w) s'"
  using assms(1)
proof (cases rule: update_asset_cases)
  case fresh
  then show ?thesis by simp
next
  case (failed w1 e)
  with fetch_crypto_daily_frame [OF failed(2)] show ?thesis by auto
next
  case (no_data w1)
  with fetch_crypto_daily_frame [OF no_data(2)] show ?thesis by auto
next
  case (pushed w1 daily_data)
  from fetch_crypto_daily_frame [OF pushed(2)] obtain evs where "w1 = w\<lparr>net := evs\<rparr>" ..
  with pushed(4)
  have "coll w' = update_one symb (\<lambda>d. d\<lparr>dayline := dayline d @ daily_data\<rparr>) (coll w)"
    by (simp add: push_dayline_def)
  with assms(2) show ?thesis by (simp add: find_one_update_one_other)
qed

lemma find_one_well_formed:
  "well_formed ds \<Longrightarrow> d \<in> set ds \<Longrightarrow> symbol d = Some s \<Longrightarrow> find_one ds s = Some d"
proof (induction ds)
  case Nil
  then show ?case by simp
next
  case (Cons x ds)
  show ?case
  proof (cases "symbol x = Some s")
    case True
    with Cons.prems have "x = d" by (auto simp: well_formed_def image_iff)
    with True show ?thesis by (simp add: find_one_def)
  next
    case False
    with Cons.prems have "well_formed ds" "d \<in> set ds" by (auto simp: well_formed_def)
    with Cons.IH Cons.prems(3) False show ?thesis by (simp add: find_one_def)
  qed
qed




lemma ex_update_runs:
  "update_crypto_daily (candle_endpoint ex_db) ex_clock (ex_world [ex_stale ''BTCUSDT''])
     = Some (\<lparr>coll = [ex_synced ''BTCUSDT''], net = [ex_request ''BTCUSDT'', Sleep 1],
              writes = [PushDayline ''BTCUSDT'' [ex_bar 1699920000000, ex_bar 1700006400000]],
              error_log = []\<rparr>, Inr ())"
  "update_crypto_daily (candle_endpoint ex_db) ex_clock (ex_world [ex_synced ''BTCUSDT''])
     = Some (ex_world [ex_synced ''BTCUSDT''], Inr ())"
  by (simp_all add: update_crypto_daily_def ex_run_simps)


section \<open>Bootstrap and update\<close>

lemma update_one_cong:
  "(\<And>d. find_one ds s = Some d \<Longrightarrow> u d = u' d) \<Longrightarrow> update_one s u ds = update_one s u' ds"
  by (induction ds) (auto simp: find_one_def)

lemma update_one_same:
  "(\<And>d. find_one ds s = Some d \<Longrightarrow> u d = d) \<Longrightarrow> update_one s u ds = ds"
  by (induction ds) (auto simp: find_one_def)

lemma init_update_loop_agree:
  assumes "coll wi = coll wu" and "net wi = net wu"
    and "\<forall>x\<in>set cs. symbol x \<noteq> None" and "distinct (map symbol cs)"
    and "\<forall>x\<in>set cs. dayline x = []"
    and "\<forall>x\<in>set cs. \<forall>s. symbol x = Some s \<longrightarrow>
           (\<exists>d. find_one (coll wi) s = Some d \<and> dayline d = [])"
  shows "outcome (init_loop up c cs wi) = outcome (update_loop up c y v cs wu)"
  using assms
proof (induction cs arbitrary: wi wu v)
  case Nil
  then show ?case by (simp add: outcome_def)
next
  case (Cons x rest)
  from Cons.prems(3) obtain s where s: "symbol x = Some s" by auto
  from Cons.prems(5) have dx: "dayline x = []" by simp
  then have nf: "\<not> is_fresh y x" "start_date_for x = None"
    by (simp_all add: is_fresh_def start_date_for_def)
  from Cons.prems(6) s obtain d where d: "find_one (coll wi) s = Some d" "dayline d = []"
    by auto
  with Cons.prems(1) have d': "find_one (coll wu) s = Some d" by simp
  let ?B = "fetch_crypto_daily_binance up (tz c) s None (net wi)"
  have fi: "fetch_crypto_daily up c s None wi = map_option (\<lambda>(evs, r). (wi\<lparr>net := evs\<rparr>, r)) ?B"
    using d by (intro fetch_crypto_daily_not_stored) auto
  have fu: "fetch_crypto_daily up c s None wu = map_option (\<lambda>(evs, r). (wu\<lparr>net := evs\<rparr>, r)) ?B"
    using d' d(2) Cons.prems(2) fetch_crypto_daily_not_stored [of wu s up c None] by auto
  have rest_syms: "\<forall>x'\<in>set rest. symbol x' \<noteq> None" "distinct (map symbol rest)"
    "Some s \<notin> symbol ` set rest" "\<forall>x'\<in>set rest. dayline x' = []"
    using Cons.prems(3,4,5) s by auto
  have keep: "\<forall>x'\<in>set rest. \<forall>s'. symbol x' = Some s' \<longrightarrow>
           (\<exists>d. find_one (update_one s u (coll wi)) s' = Some d \<and> dayline d = [])"
    if "\<And>d. symbol (u d) = symbol d" for u
  proof (intro ballI allI impI)
    fix x' s' assume x': "x' \<in> set rest" "symbol x' = Some s'"
    with rest_syms(3) have "s' \<noteq> s" by force
    from find_one_update_one_other [OF this that] Cons.prems(6) x'
    show "\<exists>d. find_one (update_one s u (coll wi)) s' = Some d \<and> dayline d = []" by simp
  qed
  have keep0: "\<forall>x'\<in>set rest. \<forall>s'. symbol x' = Some s' \<longrightarrow>
           (\<exists>d. find_one (coll wi) s' = Some d \<and> dayline d = [])"
    using Cons.prems(6) by simp
  show ?case
  proof (cases ?B)
    case None
    with fi fu s nf show ?thesis by (simp add: outcome_def update_asset_def)
  next
    case (Some p)
    obtain evs r1 where p: "p = (evs, r1)" by (cases p)
    show ?thesis
    proof (cases r1)
      case (Inl e)
      let ?wi = "wi\<lparr>net := evs, error_log := error_log wi @ [s]\<rparr>"
      let ?wu = "wu\<lparr>net := evs, error_log := error_log wu @ [s]\<rparr>"
      from Inl Some p fi s have li: "init_loop up c (x # rest) wi = init_loop up c rest ?wi"
        by simp
      from Inl Some p fu s nf
      have lu: "update_loop up c y v (x # rest) wu = update_loop up c y (Some s) rest ?wu"
        by (simp add: update_asset_def)
      have cc: "coll ?wi = coll ?wu" "net ?wi = net ?wu" using Cons.prems(1) by simp_all
      have k: "\<forall>x'\<in>set rest. \<forall>s'. symbol x' = Some s' \<longrightarrow>
           (\<exists>d. find_one (coll ?wi) s' = Some d \<and> dayline d = [])"
        using keep0 by simp
      have "outcome (init_loop up c rest ?wi) = outcome (update_loop up c y (Some s) rest ?wu)"
        by (rule Cons.IH [OF cc rest_syms(1,2,4) k])
      with li lu show ?thesis by simp
    next
      case (Inr daily_data)
      let ?wi = "(set_dayline s daily_data (wi\<lparr>net := evs\<rparr>))\<lparr>net := evs @ [Sleep 1]\<rparr>"
      let ?wu = "(if daily_data \<noteq> [] then push_dayline s daily_data (wu\<lparr>net := evs\<rparr>)
                 else wu\<lparr>net := evs\<rparr>)\<lparr>net := evs @ [Sleep 1]\<rparr>"
      from Inr Some p fi s have li: "init_loop up c (x # rest) wi = init_loop up c rest ?wi"
        by (simp add: Let_def set_dayline_def)
      from Inr Some p fu s nf
      have lu: "update_loop up c y v (x # rest) wu = update_loop up c y (Some s) rest ?wu"
        by (simp add: update_asset_def Let_def push_dayline_def)
      have ci: "coll ?wi = update_one s (\<lambda>d. d\<lparr>dayline := daily_data\<rparr>) (coll wi)"
        by (simp add: set_dayline_def)
      have "coll ?wu = update_one s (\<lambda>d. d\<lparr>dayline := daily_data\<rparr>) (coll wi)"
      proof (cases "daily_data = []")
        case True
        have "update_one s (\<lambda>d. d\<lparr>dayline := daily_data\<rparr>) (coll wi) = coll wi"
          using d True by (intro update_one_same) auto
        with True Cons.prems(1) show ?thesis by simp
      next
        case False
        have "update_one s (\<lambda>d. d\<lparr>dayline := dayline d @ daily_data\<rparr>) (coll wi)
              = update_one s (\<lambda>d. d\<lparr>dayline := daily_data\<rparr>) (coll wi)"
          using d by (intro update_one_cong) auto
        with False Cons.prems(1) show ?thesis by (simp add: push_dayline_def)
      qed
      with ci have cc: "coll ?wi = coll ?wu" by simp
      have nn: "net ?wi = net ?wu" by simp
      have k: "\<forall>x'\<in>set rest. \<forall>s'. symbol x' = Some s' \<longrightarrow>
           (\<exists>d. find_one (coll ?wi) s' = Some d \<and> dayline d = [])"
        unfolding ci by (rule keep) simp
      have "outcome (init_loop up c rest ?wi) = outcome (update_loop up c y (Some s) rest ?wu)"
        by (rule Cons.IH [OF cc nn rest_syms(1,2,4) k])
      with li lu show ?thesis by simp
    qed
  qed
qed

text \<open>
  Claim C8, amended.  On a collection whose documents have distinct symbols and no
  stored bars, \<open>init_crypto_daily\<close> and \<open>update_crypto_daily\<close> send the same requests and
  leave the same collection, with the same result; if one does not return, neither does
  the other.
\<close>

theorem bootstrap_equals_update_on_empty_history:
  assumes "well_formed (coll w)" and "\<forall>d\<in>set (coll w). dayline d = []"
  shows "map_option (\<lambda>(w', r). (coll w', net w', r)) (init_crypto_daily up c w)
       = map_option (\<lambda>(w', r). (coll w', net w', r)) (update_crypto_daily up c w)"
proof -
  have proj: "map (\<lambda>d. d\<lparr>dayline := slice_last (dayline d)\<rparr>) (coll w) = coll w"
    using assms(2) by (induction "coll w") (auto simp: map_idI)
  have "\<forall>x\<in>set (coll w). \<forall>s. symbol x = Some s \<longrightarrow>
           (\<exists>d. find_one (coll w) s = Some d \<and> dayline d = [])"
    using find_one_well_formed [OF assms(1)] assms(2) by blast
  with assms init_update_loop_agree [of w w "coll w" up c "utc_midnight c - ms_per_day" None]
  show ?thesis
    by (simp add: init_crypto_daily_def update_crypto_daily_def Let_def proj well_formed_def
          outcome_def)
qed

lemma ex_bootstrap_runs:
  "init_crypto_daily (candle_endpoint ex_db) ex_clock (ex_world [ex_new ''BTCUSDT''])
     = Some (\<lparr>coll = [ex_synced ''BTCUSDT''], net = ex_full_fetch ''BTCUSDT'' @ [Sleep 1],
              writes = [SetDayline ''BTCUSDT''
                 [ex_bar 1699833600000, ex_bar 1699920000000, ex_bar 1700006400000]],
              error_log = []\<rparr>, Inr ())"
  "update_crypto_daily (candle_endpoint ex_db) ex_clock (ex_world [ex_new ''BTCUSDT''])
     = Some (\<lparr>coll = [ex_synced ''BTCUSDT''], net = ex_full_fetch ''BTCUSDT'' @ [Sleep 1],
              writes = [PushDayline ''BTCUSDT''
                 [ex_bar 1699833600000, ex_bar 1699920000000, ex_bar 1700006400000]],
              error_log = []\<rparr>, Inr ())"
  "init_crypto_daily (candle_endpoint ex_db) ex_clock (ex_world [ex_stale ''BTCUSDT''])
     = Some (\<lparr>coll = [ex_doc (Some ''BTCUSDT'') [ex_bar 1699920000000, ex_bar 1700006400000]],
              net = [ex_request ''BTCUSDT'', Sleep 1],
              writes = [SetDayline ''BTCUSDT'' [ex_bar 1699920000000, ex_bar 1700006400000]],
              error_log = []\<rparr>, Inr ())"
  by (simp_all add: init_crypto_daily_def update_crypto_daily_def ex_run_simps ex_new_def
        ex_full_fetch_def)

theorem bootstrap_equals_update_on_empty_history_witness:
  "well_formed (coll (ex_world [ex_new ''BTCUSDT'']))
   \<and> list_all (\<lambda>d. dayline d = []) (coll (ex_world [ex_new ''BTCUSDT'']))
   \<and> map_option (\<lambda>(w', r). (coll w', net w', r))
        (init_crypto_daily (candle_endpoint ex_db) ex_clock (ex_world [ex_new ''BTCUSDT'']))
     = Some ([ex_synced ''BTCUSDT''], ex_full_fetch ''BTCUSDT'' @ [Sleep 1], Inr ())
   \<and> map_option (\<lambda>(w', r). (coll w', net w', r))
        (update_crypto_daily (candle_endpoint ex_db) ex_clock (ex_world [ex_new ''BTCUSDT'']))
     = Some ([ex_synced ''BTCUSDT''], ex_full_fetch ''BTCUSDT'' @ [Sleep 1], Inr ())"
proof -
  let ?w = "ex_world [ex_new ''BTCUSDT'']"
  have a: "well_formed (coll ?w)"
    by (simp add: well_formed_def ex_world_def ex_new_def ex_doc_def)
  have b: "\<forall>d\<in>set (coll ?w). dayline d = []"
    by (simp add: ex_world_def ex_new_def ex_doc_def)
  from bootstrap_equals_update_on_empty_history [OF a b, of "candle_endpoint ex_db" ex_clock]
    a b ex_bootstrap_runs(1)
  show ?thesis by (simp add: list_all_iff)
qed

lemma ex_bootstrap_duplicate:
  "map_option (\<lambda>(w', r). (coll w', r))
     (init_crypto_daily (candle_endpoint ex_db) ex_clock
        (ex_world [ex_new ''BTCUSDT'', ex_new ''BTCUSDT'']))
     = Some ([ex_new ''BTCUSDT'', ex_new ''BTCUSDT''], Inr ())"
  "map_option (\<lambda>(w', r). (coll w', r))
     (update_crypto_daily (candle_endpoint ex_db) ex_clock
        (ex_world [ex_new ''BTCUSDT'', ex_new ''BTCUSDT'']))
     = Some ([ex_synced ''BTCUSDT'', ex_new ''BTCUSDT''], Inr ())"
  "map_option (\<lambda>(w', r). (coll w', r))
     (init_crypto_daily (candle_endpoint (\<lambda>s. ex_db ''BTCUSDT'')) ex_clock
        (ex_world [ex_new ''BTCUSDT'', ex_doc None [], ex_new ''ETHUSDT'']))
     = Some ([ex_synced ''BTCUSDT'', ex_doc None [], ex_new ''ETHUSDT''], Inl (KeyError ''symbol''))"
  "map_option (\<lambda>(w', r). (coll w', r))
     (update_crypto_daily (candle_endpoint (\<lambda>s. ex_db ''BTCUSDT'')) ex_clock
        (ex_world [ex_new ''BTCUSDT'', ex_doc None [], ex_new ''ETHUSDT'']))
     = Some ([ex_synced ''BTCUSDT'', ex_doc None [], ex_synced ''ETHUSDT''], Inr ())"
  by (simp_all add: init_crypto_daily_def update_crypto_daily_def ex_run_simps ex_new_def)

text \<open>
  Claim C8 as stated, from any storage state, does not hold.  With one stale asset the
  bootstrap fill replaces the stored history by the newly fetched bars, where the
  update appends them.  With two documents of one symbol and no history, the second
  bootstrap cycle overwrites what the first stored.  With a document without symbol
  after the first, the bootstrap fill stops there and the update goes on.
\<close>

theorem bootstrap_overwrites_history_counterexample:
  "init_crypto_daily (candle_endpoint ex_db) ex_clock (ex_world [ex_stale ''BTCUSDT''])
     = Some (\<lparr>coll = [ex_doc (Some ''BTCUSDT'') [ex_bar 1699920000000, ex_bar 1700006400000]],
              net = [ex_request ''BTCUSDT'', Sleep 1],
              writes = [SetDayline ''BTCUSDT'' [ex_bar 1699920000000, ex_bar 1700006400000]],
              error_log = []\<rparr>, Inr ())
   \<and> update_crypto_daily (candle_endpoint ex_db) ex_clock (ex_world [ex_stale ''BTCUSDT''])
     = Some (\<lparr>coll = [ex_doc (Some ''BTCUSDT'')
                        [ex_bar 1699833600000, ex_bar 1699920000000, ex_bar 1700006400000]],
              net = [ex_request ''BTCUSDT'', Sleep 1],
              writes = [PushDayline ''BTCUSDT'' [ex_bar 1699920000000, ex_bar 1700006400000]],
              error_log = []\<rparr>, Inr ())
   \<and> [ex_bar 1699920000000, ex_bar 1700006400000]
       \<noteq> [ex_bar 1699833600000, ex_bar 1699920000000, ex_bar 1700006400000]
   \<and> map_option (\<lambda>(w', r). (coll w', r))
       (init_crypto_daily (candle_endpoint ex_db) ex_clock
          (ex_world [ex_new ''BTCUSDT'', ex_new ''BTCUSDT'']))
     = Some ([ex_new ''BTCUSDT'', ex_new ''BTCUSDT''], Inr ())
   \<and> map_option (\<lambda>(w', r). (coll w', r))
       (update_crypto_daily (candle_endpoint ex_db) ex_clock
          (ex_world [ex_new ''BTCUSDT'', ex_new ''BTCUSDT'']))
     = Some ([ex_synced ''BTCUSDT'', ex_new ''BTCUSDT''], Inr ())
   \<and> ex_new ''BTCUSDT'' \<noteq> ex_synced ''BTCUSDT''
   \<and> map_option (\<lambda>(w', r). (coll w', r))
       (init_crypto_daily (candle_endpoint (\<lambda>s. ex_db ''BTCUSDT'')) ex_clock
          (ex_world [ex_new ''BTCUSDT'', ex_doc None [], ex_new ''ETHUSDT'']))
     = Some ([ex_synced ''BTCUSDT'', ex_doc None [], ex_new ''ETHUSDT''], Inl (KeyError ''symbol''))
   \<and> map_option (\<lambda>(w', r). (coll w', r))
       (update_crypto_daily (candle_endpoint (\<lambda>s. ex_db ''BTCUSDT'')) ex_clock
          (ex_world [ex_new ''BTCUSDT'', ex_doc None [], ex_new ''ETHUSDT'']))
     = Some ([ex_synced ''BTCUSDT'', ex_doc None [], ex_synced ''ETHUSDT''], Inr ())"
  using ex_bootstrap_runs(3) ex_update_runs(1) ex_bootstrap_duplicate
  by (simp add: ex_synced_def ex_new_def ex_doc_def)

section \<open>The full-history fetch\<close>


lemma convert_Cons_new:
  "kline_day z k \<notin> s \<Longrightarrow>
     convert z (k # ks) a s = convert z ks (a @ [bar_of_kline z k]) (insert (kline_day z k) s)"
  by (simp add: Let_def kline_day_def)

lemma convert_Cons_seen:
  "kline_day z k \<in> s \<Longrightarrow> convert z (k # ks) a s = convert z ks a s"
  by (simp add: Let_def kline_day_def)




lemma fetch_loop_empty:
  "make_request up ps evs = (evs1, Inr []) \<Longrightarrow>
   fetch_loop up z hs ps a s evs = Some (evs1, Inr (sort_key date a))"
  by (subst fetch_loop.simps) simp

lemma make_request_ok:
  "up (request_count evs) p = Ok ks \<Longrightarrow> make_request up p evs = (evs @ [Request p], Inr ks)"
  by (simp add: make_request_cases)










section \<open>A second run of the update\<close>

lemma candle_endpoint_window:
  "candle_endpoint db n p =
     Ok (if startTime p = None
         then drop (length (filter (in_window p) (db (p_symbol p))) - 1000)
                (filter (in_window p) (db (p_symbol p)))
         else take 1000 (filter (in_window p) (db (p_symbol p))))"
  by (simp add: candle_endpoint_def Let_def)

lemma make_request_candle:
  "make_request (candle_endpoint db) p evs =
     (evs @ [Request p], Inr (if startTime p = None
         then drop (length (filter (in_window p) (db (p_symbol p))) - 1000)
                (filter (in_window p) (db (p_symbol p)))
         else take 1000 (filter (in_window p) (db (p_symbol p)))))"
  by (rule make_request_ok) (rule candle_endpoint_window)

lemma convert_seen_set:
  "snd (convert z ks a s) = s \<union> kline_day z ` set ks"
proof (induction ks arbitrary: a s)
  case Nil
  then show ?case by simp
next
  case (Cons k ks)
  show ?case
  proof (cases "kline_day z k \<in> s")
    case True
    then show ?thesis unfolding convert_Cons_seen [OF True] using Cons.IH by auto
  next
    case False
    then show ?thesis unfolding convert_Cons_new [OF False] using Cons.IH by auto
  qed
qed

lemma convert_keeps:
  "set a \<subseteq> set (fst (convert z ks a s))"
proof (induction ks arbitrary: a s)
  case Nil
  then show ?case by simp
next
  case (Cons k ks)
  show ?case
  proof (cases "kline_day z k \<in> s")
    case True
    then show ?thesis unfolding convert_Cons_seen [OF True] using Cons.IH by auto
  next
    case False
    have "set (a @ [bar_of_kline z k]) \<subseteq>
      set (fst (convert z ks (a @ [bar_of_kline z k]) (insert (kline_day z k) s)))"
      by (rule Cons.IH)
    then show ?thesis unfolding convert_Cons_new [OF False] by auto
  qed
qed

lemma convert_keys:
  "s = day_key ` set a \<Longrightarrow> snd (convert z ks a s) = day_key ` set (fst (convert z ks a s))"
proof (induction ks arbitrary: a s)
  case Nil
  then show ?case by simp
next
  case (Cons k ks)
  show ?case
  proof (cases "kline_day z k \<in> s")
    case True
    then show ?thesis unfolding convert_Cons_seen [OF True] using Cons by auto
  next
    case False
    have "insert (kline_day z k) s = day_key ` set (a @ [bar_of_kline z k])"
      using Cons.prems
      by (simp add: day_key_def kline_day_def bar_of_kline_def)
    from Cons.IH [OF this] show ?thesis unfolding convert_Cons_new [OF False] .
  qed
qed

lemma sorted_take_covers:
  assumes "sorted_wrt (<) (map open_time xs)" and "x \<in> set xs" and "take n xs \<noteq> []"
    and "open_time x \<le> open_time (last (take n xs))"
  shows "x \<in> set (take n xs)"
proof (rule ccontr)
  assume "x \<notin> set (take n xs)"
  with assms(2) have "x \<in> set (drop n xs)"
    by (metis Un_iff append_take_drop_id set_append)
  moreover from assms(3) have "last (take n xs) \<in> set (take n xs)" by simp
  moreover from assms(1) have "sorted_wrt (<) (map open_time (take n xs @ drop n xs))" by simp
  then have "\<forall>u\<in>set (take n xs). \<forall>v\<in>set (drop n xs). open_time u < open_time v"
    unfolding map_append sorted_wrt_append by auto
  ultimately have "open_time (last (take n xs)) < open_time x" by blast
  with assms(4) show False by simp
qed

lemma sorted_filter_open_time:
  "sorted_wrt (<) (map open_time xs) \<Longrightarrow> sorted_wrt (<) (map open_time (filter P xs))"
  by (simp add: sorted_wrt_map sorted_wrt_filter)

lemma take_short:
  "length (take n xs) < n \<Longrightarrow> take n xs = xs"
  by (simp add: min_def split: if_splits)

lemma fetch_loop_covers:
  assumes "fetch_loop (candle_endpoint db) z hs ps a s evs = Some y"
    and sorted: "sorted_wrt (<) (map open_time (db symb))"
  shows "p_symbol ps = symb \<longrightarrow> s = day_key ` set a \<longrightarrow>
     (\<forall>evs' bars. y = (evs', Inr bars) \<longrightarrow>
        day_key ` set a \<subseteq> day_key ` set bars \<and>
        (startTime ps \<noteq> None \<longrightarrow>
           (\<forall>k\<in>set (db symb). in_window ps k \<longrightarrow> kline_day z k \<in> day_key ` set bars)))"
  using assms(1)
proof (induction rule: fetch_loop_induct)
  case (error ps a s evs evs1 e)
  then show ?case by simp
next
  case (empty ps a s evs evs1)
  show ?case
  proof (intro impI allI conjI ballI)
    fix evs' bars k
    assume ps: "p_symbol ps = symb" and y: "(evs1, Inr (sort_key date a)) = (evs', Inr bars)"
    from y show "day_key ` set a \<subseteq> day_key ` set bars" by auto
    assume st: "startTime ps \<noteq> None" and k: "k \<in> set (db symb)" "in_window ps k"
    from empty st ps have "take 1000 (filter (in_window ps) (db symb)) = []"
      by (simp add: make_request_candle)
    then have "filter (in_window ps) (db symb) = []" by simp
    with k have False by (auto simp: filter_empty_conv)
    then show "kline_day z k \<in> day_key ` set bars" ..
  qed
next
  case (stop ps a s evs evs1 klines a1 s1)
  show ?case
  proof (intro impI allI conjI ballI)
    fix evs' bars k
    assume ps: "p_symbol ps = symb" and s: "s = day_key ` set a"
      and y: "(evs1, Inr (sort_key date a1)) = (evs', Inr bars)"
    from y have bars: "set bars = set a1" by auto
    from stop(3) have a1: "a1 = fst (convert z klines a s)" "s1 = snd (convert z klines a s)"
      by simp_all
    from convert_keeps [of a z klines s] a1 bars
    show "day_key ` set a \<subseteq> day_key ` set bars" by auto
    assume st: "startTime ps \<noteq> None" and k: "k \<in> set (db symb)" "in_window ps k"
    from stop(1) st ps have kl: "klines = take 1000 (filter (in_window ps) (db symb))"
      by (simp add: make_request_candle)
    with stop(4) have "klines = filter (in_window ps) (db symb)"
      using take_short by metis
    with k have "k \<in> set klines" by simp
    then have "kline_day z k \<in> s1" unfolding a1 convert_seen_set by simp
    also have "s1 = day_key ` set a1" unfolding a1 using s by (rule convert_keys)
    finally show "kline_day z k \<in> day_key ` set bars" using bars by simp
  qed
next
  case (key_error ps a s evs evs1 klines a1 s1)
  then show ?case by simp
next
  case (recent ps a s evs evs1 klines a1 s1 y)
  show ?case
  proof (intro impI allI conjI ballI)
    fix evs' bars k
    assume ps: "p_symbol ps = symb" and s: "s = day_key ` set a" and y: "y = (evs', Inr bars)"
    from recent(3) have a1: "a1 = fst (convert z klines a s)" "s1 = snd (convert z klines a s)"
      by simp_all
    have s1: "s1 = day_key ` set a1" unfolding a1 using s by (rule convert_keys)
    from recent(8) ps s1 y have sub: "day_key ` set a1 \<subseteq> day_key ` set bars" by simp
    with convert_keeps [of a z klines s] a1
    show "day_key ` set a \<subseteq> day_key ` set bars" by auto
    assume st: "startTime ps \<noteq> None" and k: "k \<in> set (db symb)" "in_window ps k"
    from recent(1) st ps have kl: "klines = take 1000 (filter (in_window ps) (db symb))"
      by (simp add: make_request_candle)
    with recent(4) have "klines = filter (in_window ps) (db symb)"
      using take_short by metis
    with k have "k \<in> set klines" by simp
    then have "kline_day z k \<in> s1" unfolding a1 convert_seen_set by simp
    with s1 sub show "kline_day z k \<in> day_key ` set bars" by auto
  qed
next
  case (page ps a s evs evs1 klines a1 s1 y)
  let ?ps = "ps\<lparr>startTime := Some (open_time (last klines) + 1)\<rparr>"
  show ?case
  proof (intro impI allI conjI ballI)
    fix evs' bars k
    assume ps: "p_symbol ps = symb" and s: "s = day_key ` set a" and y: "y = (evs', Inr bars)"
    from page(2) have a1: "a1 = fst (convert z klines a s)" "s1 = snd (convert z klines a s)"
      by simp_all
    have s1: "s1 = day_key ` set a1" unfolding a1 using s by (rule convert_keys)
    from page(4) ps s1 y have sub: "day_key ` set a1 \<subseteq> day_key ` set bars"
      and rest: "\<forall>k\<in>set (db symb). in_window ?ps k \<longrightarrow> kline_day z k \<in> day_key ` set bars"
      by simp_all
    from sub convert_keeps [of a z klines s] a1
    show "day_key ` set a \<subseteq> day_key ` set bars" by auto
    assume st: "startTime ps \<noteq> None" and k: "k \<in> set (db symb)" "in_window ps k"
    from page(1) st ps have kl: "klines = take 1000 (filter (in_window ps) (db symb))"
      by (simp add: make_request_candle)
    from page(3) have ne: "klines \<noteq> []" by auto
    show "kline_day z k \<in> day_key ` set bars"
    proof (cases "open_time k \<le> open_time (last klines)")
      case True
      have "k \<in> set (take 1000 (filter (in_window ps) (db symb)))"
        using sorted_filter_open_time [OF sorted] k ne True unfolding kl
        by (intro sorted_take_covers) simp_all
      with kl have "k \<in> set klines" by simp
      then have "kline_day z k \<in> s1" unfolding a1 convert_seen_set by simp
      with s1 sub show ?thesis by auto
    next
      case False
      with k(2) have "in_window ?ps k" by (simp add: in_window_def split: option.splits)
      with rest k(1) show ?thesis by simp
    qed
  qed
qed

lemma make_request_answer:
  "make_request (candle_endpoint db) p evs = (evs @ [Request p], Inr (answer db p))"
  by (simp add: make_request_candle answer_def)

lemma page_covered:
  assumes "s = day_key ` set a" and "day_key ` set (fst (convert z klines a s)) \<subseteq> D"
  shows "day_key ` set a \<subseteq> D \<and> kline_day z ` set klines \<subseteq> D"
proof
  from convert_keeps [of a z klines s] have "day_key ` set a \<subseteq> day_key ` set (fst (convert z klines a s))"
    by (rule image_mono)
  with assms(2) show "day_key ` set a \<subseteq> D" by blast
  have "kline_day z ` set klines \<subseteq> snd (convert z klines a s)"
    unfolding convert_seen_set by simp
  also have "\<dots> = day_key ` set (fst (convert z klines a s))"
    using assms(1) by (rule convert_keys)
  finally show "kline_day z ` set klines \<subseteq> D" using assms(2) by blast
qed

lemma fetch_loop_first_page:
  assumes "fetch_loop (candle_endpoint db) z hs ps a s evs = Some y"
  shows "s = day_key ` set a \<longrightarrow>
     (\<forall>evs' bars. y = (evs', Inr bars) \<longrightarrow>
        day_key ` set a \<subseteq> day_key ` set bars \<and>
        kline_day z ` set (answer db ps) \<subseteq> day_key ` set bars)"
  using assms(1)
proof (induction rule: fetch_loop_induct)
  case (error ps a s evs evs1 e)
  then show ?case by simp
next
  case (empty ps a s evs evs1)
  then show ?case by (auto simp: make_request_answer)
next
  case (stop ps a s evs evs1 klines a1 s1)
  from stop(3) have a1: "a1 = fst (convert z klines a s)" by simp
  from stop(1) have kl: "answer db ps = klines" by (simp add: make_request_answer)
  show ?case
  proof (intro impI allI)
    fix evs' bars
    assume s: "s = day_key ` set a" and y: "(evs1, Inr (sort_key date a1)) = (evs', Inr bars)"
    from y have "day_key ` set (fst (convert z klines a s)) \<subseteq> day_key ` set bars"
      unfolding a1 [symmetric] by auto
    from page_covered [OF s this]
    show "day_key ` set a \<subseteq> day_key ` set bars \<and>
        kline_day z ` set (answer db ps) \<subseteq> day_key ` set bars"
      unfolding kl .
  qed
next
  case (key_error ps a s evs evs1 klines a1 s1)
  then show ?case by simp
next
  case (recent ps a s evs evs1 klines a1 s1 y)
  from recent(3) have a1: "a1 = fst (convert z klines a s)" "s1 = snd (convert z klines a s)"
    by simp_all
  from recent(1) have kl: "answer db ps = klines" by (simp add: make_request_answer)
  show ?case
  proof (intro impI allI)
    fix evs' bars
    assume s: "s = day_key ` set a" and y: "y = (evs', Inr bars)"
    have s1: "s1 = day_key ` set a1" unfolding a1 using s by (rule convert_keys)
    from recent(8) s1 y have "day_key ` set a1 \<subseteq> day_key ` set bars" by simp
    then have "day_key ` set (fst (convert z klines a s)) \<subseteq> day_key ` set bars"
      unfolding a1 .
    from page_covered [OF s this]
    show "day_key ` set a \<subseteq> day_key ` set bars \<and>
        kline_day z ` set (answer db ps) \<subseteq> day_key ` set bars"
      unfolding kl .
  qed
next
  case (page ps a s evs evs1 klines a1 s1 y)
  from page(2) have a1: "a1 = fst (convert z klines a s)" "s1 = snd (convert z klines a s)"
    by simp_all
  from page(1) have kl: "answer db ps = klines" by (simp add: make_request_answer)
  show ?case
  proof (intro impI allI)
    fix evs' bars
    assume s: "s = day_key ` set a" and y: "y = (evs', Inr bars)"
    have s1: "s1 = day_key ` set a1" unfolding a1 using s by (rule convert_keys)
    from page(4) s1 y have "day_key ` set a1 \<subseteq> day_key ` set bars" by simp
    then have "day_key ` set (fst (convert z klines a s)) \<subseteq> day_key ` set bars"
      unfolding a1 .
    from page_covered [OF s this]
    show "day_key ` set a \<subseteq> day_key ` set bars \<and>
        kline_day z ` set (answer db ps) \<subseteq> day_key ` set bars"
      unfolding kl .
  qed
qed

lemma fetch_loop_candle_no_error:
  assumes "fetch_loop (candle_endpoint db) z hs ps a s evs = Some y"
  shows "(endTime ps \<noteq> None \<longrightarrow> startTime ps \<noteq> None) \<longrightarrow> (\<exists>evs' bars. y = (evs', Inr bars))"
  using assms
proof (induction rule: fetch_loop_induct)
  case (error ps a s evs evs1 e)
  then show ?case by (simp add: make_request_answer)
qed simp_all

lemma same_day_close:
  assumes "x div ms_per_day = y div ms_per_day"
  shows "x < y + ms_per_day"
proof -
  have d: "(0::int) < ms_per_day" by (simp add: ms_per_day_def)
  have "x = ms_per_day * (x div ms_per_day) + x mod ms_per_day" by simp
  moreover have "y = ms_per_day * (y div ms_per_day) + y mod ms_per_day" by simp
  moreover have "x mod ms_per_day < ms_per_day" "0 \<le> y mod ms_per_day"
    using d by simp_all
  moreover have "ms_per_day * (x div ms_per_day) = ms_per_day * (y div ms_per_day)"
    using assms by simp
  ultimately show ?thesis by linarith
qed

lemma sorted_le_last:
  assumes "sorted (map date bars)" and "b \<in> set bars"
  shows "date b \<le> date (last bars)"
proof -
  from assms(2) obtain i where i: "i < length bars" "bars ! i = b"
    by (auto simp: in_set_conv_nth)
  with assms(1) have "map date bars ! i \<le> map date bars ! (length bars - 1)"
    by (intro sorted_nth_mono) auto
  with i show ?thesis by (cases "bars = []") (simp_all add: last_conv_nth)
qed

lemma covered_before_last:
  assumes "kline_day z k \<in> day_key ` set bars" and "sorted (map date bars)"
  shows "open_time k + z < date (last bars) + ms_per_day"
proof -
  from assms(1) obtain b where b: "b \<in> set bars" "kline_day z k = day_key b" by auto
  then have "(open_time k + z) div ms_per_day = date b div ms_per_day"
    by (simp add: kline_day_def day_key_def strftime_ymd_def fromtimestamp_def)
  from same_day_close [OF this] sorted_le_last [OF assms(2) b(1)] show ?thesis by simp
qed

lemma fetch_from_settles:
  assumes run: "fetch_crypto_daily_binance (candle_endpoint db) z symb (Some sd) evs = Some (evs', r)"
    and sorted: "sorted_wrt (<) (map open_time (db symb))"
  shows "\<exists>bars. r = Inr bars \<and>
           (\<forall>k\<in>set (db symb).
              open_time k + z < (if bars = [] then sd else date (last bars) + ms_per_day))"
proof -
  let ?ps = "\<lparr>p_symbol = symb, startTime = Some (timestamp z sd), endTime = None\<rparr>"
  from run have run': "fetch_loop (candle_endpoint db) z True ?ps [] {} evs = Some (evs', r)"
    by (simp add: fetch_crypto_daily_binance_def)
  from fetch_loop_candle_no_error [OF run'] obtain bars where r: "r = Inr bars" by auto
  from fetch_binance_strict [OF run [unfolded r]] have srt: "sorted (map date bars)"
    by (simp add: strict_sorted_iff)
  from fetch_binance_lower_bound [OF run [unfolded r] respects_start_candle_endpoint]
  have low: "\<forall>b\<in>set bars. sd \<le> date b" .
  from fetch_loop_covers [OF run' sorted] r
  have cov: "\<forall>k\<in>set (db symb). in_window ?ps k \<longrightarrow> kline_day z k \<in> day_key ` set bars"
    by simp
  have "open_time k + z < (if bars = [] then sd else date (last bars) + ms_per_day)"
    if k: "k \<in> set (db symb)" for k
  proof (cases "in_window ?ps k")
    case True
    with cov k have c: "kline_day z k \<in> day_key ` set bars" by simp
    then have "bars \<noteq> []" by auto
    with covered_before_last [OF c srt] show ?thesis by simp
  next
    case False
    then have lt: "open_time k + z < sd" by (simp add: in_window_def timestamp_def)
    show ?thesis
    proof (cases "bars = []")
      case True
      with lt show ?thesis by simp
    next
      case False
      with low have "sd \<le> date (last bars)" by simp
      with lt False show ?thesis by (simp add: ms_per_day_def)
    qed
  qed
  with r show ?thesis by blast
qed

lemma fetch_from_nothing:
  assumes "\<forall>k\<in>set (db symb). open_time k + z < sd"
  shows "fetch_crypto_daily_binance (candle_endpoint db) z symb (Some sd) evs =
           Some (evs @ [Request \<lparr>p_symbol = symb, startTime = Some (timestamp z sd),
                                 endTime = None\<rparr>], Inr [])"
proof -
  let ?ps = "\<lparr>p_symbol = symb, startTime = Some (timestamp z sd), endTime = None\<rparr>"
  have "filter (in_window ?ps) (db symb) = []"
    using assms by (auto simp: filter_empty_conv in_window_def timestamp_def)
  then have "answer db ?ps = []" by (simp add: answer_def)
  with make_request_answer [of db ?ps evs]
  have "make_request (candle_endpoint db) ?ps evs = (evs @ [Request ?ps], Inr [])" by simp
  from fetch_loop_empty [OF this] show ?thesis by (simp add: fetch_crypto_daily_binance_def)
qed

lemma sorted_open_time_le_last:
  assumes "sorted_wrt (<) (map open_time xs)" and "k \<in> set xs"
  shows "open_time k \<le> open_time (last xs)"
proof -
  from assms(2) obtain i where i: "i < length xs" "xs ! i = k"
    by (auto simp: in_set_conv_nth)
  from assms(1) have "sorted (map open_time xs)" by (simp add: strict_sorted_iff)
  with i have "map open_time xs ! i \<le> map open_time xs ! (length xs - 1)"
    by (intro sorted_nth_mono) auto
  with i show ?thesis by (cases "xs = []") (simp_all add: last_conv_nth)
qed

lemma fetch_full_settles:
  assumes run: "fetch_crypto_daily_binance (candle_endpoint db) z symb None evs = Some (evs', r)"
    and sorted: "sorted_wrt (<) (map open_time (db symb))"
  shows "\<exists>bars. r = Inr bars \<and>
           (bars \<noteq> [] \<longrightarrow>
              (\<forall>k\<in>set (db symb). open_time k + z < date (last bars) + ms_per_day)) \<and>
           (bars = [] \<longrightarrow>
              (\<forall>evs2. \<exists>evs3.
                 fetch_crypto_daily_binance (candle_endpoint db) z symb None evs2
                   = Some (evs3, Inr [])))"
proof -
  let ?p0 = "\<lparr>p_symbol = symb, startTime = None, endTime = None\<rparr>"
  define recent where "recent = answer db ?p0"
  define ps where "ps = (if recent \<noteq> [] then
                    \<lparr>p_symbol = symb, startTime = Some (timestamp z binance_launch),
                      endTime = Some (open_time (last recent))\<rparr>
                  else \<lparr>p_symbol = symb, startTime = None, endTime = None\<rparr>)"
  have unfold: "fetch_crypto_daily_binance (candle_endpoint db) z symb None e
      = fetch_loop (candle_endpoint db) z False ps [] {} (e @ [Request ?p0])" for e
    by (simp add: fetch_crypto_daily_binance_def make_request_answer ps_def recent_def)
  from run have run': "fetch_loop (candle_endpoint db) z False ps [] {} (evs @ [Request ?p0])
      = Some (evs', r)"
    by (simp add: unfold)
  have "endTime ps \<noteq> None \<longrightarrow> startTime ps \<noteq> None" by (simp add: ps_def)
  with fetch_loop_candle_no_error [OF run'] obtain bars where r: "r = Inr bars" by auto
  have sym: "p_symbol ps = symb" by (simp add: ps_def)
  have all: "filter (in_window ?p0) (db symb) = db symb" by (simp add: in_window_def)
  have recent: "recent = drop (length (db symb) - 1000) (db symb)"
    by (simp add: recent_def answer_def all)
  show ?thesis
  proof (cases "answer db ps = []")
    case True
    have empty: "fetch_loop (candle_endpoint db) z False ps [] {} (e @ [Request ?p0])
        = Some ((e @ [Request ?p0]) @ [Request ps], Inr [])" for e
      using fetch_loop_empty [of "candle_endpoint db" ps "e @ [Request ?p0]" _ z False "[]" "{}"]
        make_request_answer [of db ps "e @ [Request ?p0]"] True
      by simp
    from empty [of evs] run' r have "bars = []" by simp
    with r empty show ?thesis unfolding unfold by blast
  next
    case False
    from fetch_loop_first_page [OF run'] r
    have first: "kline_day z ` set (answer db ps) \<subseteq> day_key ` set bars" by simp
    with False have ne: "bars \<noteq> []" by (cases "answer db ps") auto
    from fetch_binance_strict [OF run [unfolded r]] have srt: "sorted (map date bars)"
      by (simp add: strict_sorted_iff)
    have "open_time k + z < date (last bars) + ms_per_day" if k: "k \<in> set (db symb)" for k
    proof -
      from k have dbne: "db symb \<noteq> []" by auto
      then have len: "length (db symb) - 1000 < length (db symb)"
        by (cases "db symb") simp_all
      then have rne: "recent \<noteq> []" unfolding recent by simp
      have lastr: "last recent = last (db symb)"
        unfolding recent using len by (rule last_drop)
      from rne have ps': "ps = \<lparr>p_symbol = symb, startTime = Some (timestamp z binance_launch),
                      endTime = Some (open_time (last (db symb)))\<rparr>"
        by (simp add: ps_def lastr)
      from False obtain k0 where "k0 \<in> set (answer db ps)" by (cases "answer db ps") auto
      then have "k0 \<in> set (filter (in_window ps) (db symb))"
        unfolding answer_def sym by (auto simp: ps' dest: in_set_takeD)
      then have "in_window ps k0" by simp
      then have "timestamp z binance_launch \<le> open_time (last (db symb))"
        by (simp add: in_window_def ps')
      then have w: "in_window ps (last (db symb))" by (simp add: in_window_def ps')
      from fetch_loop_covers [OF run' sorted] sym r ps'
      have "\<forall>k\<in>set (db symb). in_window ps k \<longrightarrow> kline_day z k \<in> day_key ` set bars"
        by simp
      with w dbne have "kline_day z (last (db symb)) \<in> day_key ` set bars" by simp
      from covered_before_last [OF this srt] sorted_open_time_le_last [OF sorted k]
      show ?thesis by simp
    qed
    with r ne show ?thesis by blast
  qed
qed

lemma find_one_symbol: "find_one ds s = Some d \<Longrightarrow> symbol d = Some s"
  by (auto simp: find_one_def find_Some_iff)

lemma find_one_update_one_same:
  "find_one ds s = Some d \<Longrightarrow> symbol (u d) = symbol d \<Longrightarrow>
     find_one (update_one s u ds) s = Some (u d)"
  by (induction ds) (auto simp: find_one_def split: if_splits)

lemma fetch_cycle:
  assumes f: "fetch_crypto_daily (candle_endpoint db) c s
                (start_date_for (d\<lparr>dayline := slice_last (dayline d)\<rparr>)) w = Some (w1, r)"
    and d: "find_one (coll w) s = Some d"
    and nf: "\<not> is_fresh (utc_midnight c - ms_per_day) (d\<lparr>dayline := slice_last (dayline d)\<rparr>)"
    and sorted: "sorted_wrt (<) (map open_time (db s))"
  shows "\<exists>bars. r = Inr bars \<and>
           (bars \<noteq> [] \<longrightarrow>
              (\<forall>k\<in>set (db s). open_time k + tz c < date (last bars) + ms_per_day)) \<and>
           (bars = [] \<longrightarrow> settled db c d)"
proof (cases "dayline d = []")
  case True
  then have sd: "start_date_for (d\<lparr>dayline := slice_last (dayline d)\<rparr>) = None"
    by (simp add: start_date_for_def)
  from d True have "find_one (coll w) s = None \<or>
      (\<exists>d. find_one (coll w) s = Some d \<and> dayline d = [])" by simp
  from f [unfolded sd fetch_crypto_daily_not_stored [OF this]]
  obtain evs where "fetch_crypto_daily_binance (candle_endpoint db) (tz c) s None (net w)
      = Some (evs, r)"
    by (cases "fetch_crypto_daily_binance (candle_endpoint db) (tz c) s None (net w)") auto
  from fetch_full_settles [OF this sorted] True find_one_symbol [OF d]
  show ?thesis by (auto simp: settled_def)
next
  case False
  let ?L = "date (last (dayline d))"
  from False nf have lt: "?L < utc_midnight c - ms_per_day" by (simp add: is_fresh_def)
  then have "\<not> utc_midnight c \<le> ?L" by (simp add: ms_per_day_def)
  with f [unfolded fetch_crypto_daily_stored [OF d False]]
  obtain evs where "fetch_crypto_daily_binance (candle_endpoint db) (tz c) s
      (Some (?L + ms_per_day)) (net w) = Some (evs, r)"
    by (cases "fetch_crypto_daily_binance (candle_endpoint db) (tz c) s
      (Some (?L + ms_per_day)) (net w)") auto
  from fetch_from_settles [OF this sorted] obtain bars
    where b: "r = Inr bars" "\<forall>k\<in>set (db s).
              open_time k + tz c < (if bars = [] then ?L + ms_per_day
                                    else date (last bars) + ms_per_day)"
    by blast
  show ?thesis
  proof (cases "bars = []")
    case True
    with b False find_one_symbol [OF d] show ?thesis by (simp add: settled_def)
  next
    case ne: False
    with b show ?thesis by simp
  qed
qed

lemma cycle_settles:
  assumes ua: "update_asset (candle_endpoint db) c (utc_midnight c - ms_per_day) s
                 (d\<lparr>dayline := slice_last (dayline d)\<rparr>) w = Some (w', r)"
    and d: "find_one (coll w) s = Some d"
    and sorted: "sorted_wrt (<) (map open_time (db s))"
  shows "\<exists>d'. find_one (coll w') s = Some d' \<and> settled db c d'"
  using ua
proof (cases rule: update_asset_cases)
  case fresh
  then have "dayline d \<noteq> []" "utc_midnight c - ms_per_day \<le> date (last (dayline d))"
    by (auto simp: is_fresh_def slice_last_def split: if_splits)
  with fresh d find_one_symbol [OF d] show ?thesis by (simp add: settled_def)
next
  case (failed w1 e)
  from fetch_cycle [OF failed(2) d failed(1) sorted] show ?thesis by simp
next
  case (no_data w1)
  from fetch_crypto_daily_frame [OF no_data(2)] no_data(3) have "coll w' = coll w" by auto
  with fetch_cycle [OF no_data(2) d no_data(1) sorted] d show ?thesis by simp
next
  case (pushed w1 daily_data)
  let ?d = "d\<lparr>dayline := dayline d @ daily_data\<rparr>"
  from fetch_crypto_daily_frame [OF pushed(2)] pushed(4)
  have "coll w' = update_one s (\<lambda>d. d\<lparr>dayline := dayline d @ daily_data\<rparr>) (coll w)"
    by (auto simp: push_dayline_def)
  with find_one_update_one_same [OF d, of "\<lambda>d. d\<lparr>dayline := dayline d @ daily_data\<rparr>"]
  have f: "find_one (coll w') s = Some ?d" by simp
  from fetch_cycle [OF pushed(2) d pushed(1) sorted] pushed(3)
  have "\<forall>k\<in>set (db s). open_time k + tz c < date (last daily_data) + ms_per_day" by simp
  with pushed(3) find_one_symbol [OF d] have "settled db c ?d" by (simp add: settled_def)
  with f show ?thesis by blast
qed

lemma settled_cycle:
  assumes st: "settled db c d" and d: "find_one (coll w) s = Some d"
  shows "\<exists>w'. update_asset (candle_endpoint db) c (utc_midnight c - ms_per_day) s
                 (d\<lparr>dayline := slice_last (dayline d)\<rparr>) w = Some (w', Inr ())
              \<and> coll w' = coll w \<and> writes w' = writes w"
proof (cases "is_fresh (utc_midnight c - ms_per_day) (d\<lparr>dayline := slice_last (dayline d)\<rparr>)")
  case True
  then show ?thesis by (simp add: update_asset_def)
next
  case nf: False
  note sym = find_one_symbol [OF d]
  show ?thesis
  proof (cases "dayline d = []")
    case True
    then have sd: "start_date_for (d\<lparr>dayline := slice_last (dayline d)\<rparr>) = None"
      by (simp add: start_date_for_def)
    from st sym True obtain evs'
      where "fetch_crypto_daily_binance (candle_endpoint db) (tz c) s None (net w)
               = Some (evs', Inr [])"
      by (auto simp: settled_def)
    moreover from d True have "find_one (coll w) s = None \<or>
      (\<exists>d. find_one (coll w) s = Some d \<and> dayline d = [])" by simp
    ultimately have "fetch_crypto_daily (candle_endpoint db) c s None w
        = Some (w\<lparr>net := evs'\<rparr>, Inr [])"
      by (simp add: fetch_crypto_daily_not_stored)
    with nf sd show ?thesis by (simp add: update_asset_def)
  next
    case False
    let ?L = "date (last (dayline d))"
    from False nf have lt: "?L < utc_midnight c - ms_per_day" by (simp add: is_fresh_def)
    then have nm: "\<not> utc_midnight c \<le> ?L" by (simp add: ms_per_day_def)
    from False have sd: "start_date_for (d\<lparr>dayline := slice_last (dayline d)\<rparr>)
        = Some (?L + ms_per_day)"
      by (simp add: start_date_for_def)
    from st sym False lt have "\<forall>k\<in>set (db s). open_time k + tz c < ?L + ms_per_day"
      by (simp add: settled_def)
    from fetch_from_nothing [of db s "tz c" "?L + ms_per_day" "net w", OF this] nm
    have "fetch_crypto_daily (candle_endpoint db) c s (Some (?L + ms_per_day)) w
        = Some (w\<lparr>net := net w @ [Request \<lparr>p_symbol = s,
              startTime = Some (timestamp (tz c) (?L + ms_per_day)), endTime = None\<rparr>]\<rparr>, Inr [])"
      by (simp add: fetch_crypto_daily_stored [OF d False])
    with nf sd show ?thesis by (simp add: update_asset_def)
  qed
qed

lemma update_asset_symbols:
  assumes "update_asset up c y symb crypto w = Some (w', r)"
  shows "map symbol (coll w') = map symbol (coll w)"
  using assms
proof (cases rule: update_asset_cases)
  case fresh
  then show ?thesis by simp
next
  case (failed w1 e)
  with fetch_crypto_daily_frame [OF failed(2)] show ?thesis by auto
next
  case (no_data w1)
  with fetch_crypto_daily_frame [OF no_data(2)] show ?thesis by auto
next
  case (pushed w1 daily_data)
  from fetch_crypto_daily_frame [OF pushed(2)] obtain evs where "w1 = w\<lparr>net := evs\<rparr>" ..
  with pushed(4) show ?thesis by (simp add: push_dayline_def symbols_update_one)
qed

lemma update_loop_frame:
  assumes "update_loop up c y v cs w = Some (w', r)"
  shows "map symbol (coll w') = map symbol (coll w) \<and>
         (\<forall>s. Some s \<notin> symbol ` set cs \<longrightarrow> find_one (coll w') s = find_one (coll w) s)"
  using assms
proof (induction cs arbitrary: w v)
  case Nil
  then show ?case by simp
next
  case (Cons x rest)
  show ?case
  proof (cases "symbol x")
    case None
    show ?thesis
    proof (cases v)
      case n: None
      with None Cons.prems show ?thesis by simp
    next
      case (Some s0)
      with None Cons.prems
      have "update_loop up c y v rest (w\<lparr>error_log := error_log w @ [s0]\<rparr>) = Some (w', r)"
        by simp
      from Cons.IH [OF this] show ?thesis by simp
    qed
  next
    case (Some s0)
    with Cons.prems obtain w1 r1 where ua: "update_asset up c y s0 x w = Some (w1, r1)"
      by (auto split: option.splits)
    define w2 where "w2 = (case r1 of Inl e \<Rightarrow> w1\<lparr>error_log := error_log w1 @ [s0]\<rparr> | Inr u \<Rightarrow> w1)"
    from Cons.prems Some ua have run: "update_loop up c y (Some s0) rest w2 = Some (w', r)"
      by (cases r1) (simp_all add: w2_def)
    have w2: "coll w2 = coll w1" by (cases r1; simp add: w2_def)
    from Cons.IH [OF run] update_asset_symbols [OF ua] update_asset_other [OF ua] w2 Some
    show ?thesis by auto
  qed
qed

lemma update_loop_settles:
  assumes "update_loop (candle_endpoint db) c (utc_midnight c - ms_per_day) v cs w = Some (w', r)"
    and "\<forall>x\<in>set cs. symbol x \<noteq> None" and "distinct (map symbol cs)"
    and "\<forall>x\<in>set cs. \<forall>s. symbol x = Some s \<longrightarrow>
           (\<exists>d. find_one (coll w) s = Some d \<and> d\<lparr>dayline := slice_last (dayline d)\<rparr> = x)"
    and sorted: "\<forall>s. sorted_wrt (<) (map open_time (db s))"
  shows "\<forall>x\<in>set cs. \<forall>s. symbol x = Some s \<longrightarrow>
           (\<exists>d'. find_one (coll w') s = Some d' \<and> settled db c d')"
  using assms(1-4)
proof (induction cs arbitrary: w v)
  case Nil
  then show ?case by simp
next
  case (Cons x rest)
  let ?y = "utc_midnight c - ms_per_day"
  from Cons.prems(2) obtain s0 where s0: "symbol x = Some s0" by auto
  with Cons.prems(4) obtain d where d: "find_one (coll w) s0 = Some d"
    "d\<lparr>dayline := slice_last (dayline d)\<rparr> = x" by auto
  from Cons.prems(1) s0 obtain w1 r1
    where ua: "update_asset (candle_endpoint db) c ?y s0 x w = Some (w1, r1)"
    by (auto split: option.splits)
  define w2 where "w2 = (case r1 of Inl e \<Rightarrow> w1\<lparr>error_log := error_log w1 @ [s0]\<rparr> | Inr u \<Rightarrow> w1)"
  from Cons.prems(1) s0 ua
  have run: "update_loop (candle_endpoint db) c ?y (Some s0) rest w2 = Some (w', r)"
    by (cases r1) (simp_all add: w2_def)
  have w2: "coll w2 = coll w1" by (cases r1; simp add: w2_def)
  from cycle_settles [OF ua [folded d(2)] d(1) sorted [rule_format]] w2
  obtain d1 where d1: "find_one (coll w2) s0 = Some d1" "settled db c d1" by auto
  have rest_syms: "\<forall>x'\<in>set rest. symbol x' \<noteq> None" "distinct (map symbol rest)"
    "Some s0 \<notin> symbol ` set rest"
    using Cons.prems(2,3) s0 by auto
  have stored: "\<forall>x'\<in>set rest. \<forall>s. symbol x' = Some s \<longrightarrow>
           (\<exists>d. find_one (coll w2) s = Some d \<and> d\<lparr>dayline := slice_last (dayline d)\<rparr> = x')"
  proof (intro ballI allI impI)
    fix x' s assume x': "x' \<in> set rest" "symbol x' = Some s"
    with rest_syms(3) have "s \<noteq> s0" by force
    from update_asset_other [OF ua this] w2
    have "find_one (coll w2) s = find_one (coll w) s" by simp
    with Cons.prems(4) x'
    show "\<exists>d. find_one (coll w2) s = Some d \<and> d\<lparr>dayline := slice_last (dayline d)\<rparr> = x'"
      by simp
  qed
  note ih = Cons.IH [OF run rest_syms(1,2) stored]
  from update_loop_frame [OF run] rest_syms(3) d1
  have head: "find_one (coll w') s0 = Some d1" by simp
  show ?case
  proof (intro ballI allI impI)
    fix x' s assume x': "x' \<in> set (x # rest)" "symbol x' = Some s"
    show "\<exists>d'. find_one (coll w') s = Some d' \<and> settled db c d'"
    proof (cases "x' = x")
      case True
      with x' s0 head d1(2) show ?thesis by auto
    next
      case False
      with x' ih show ?thesis by auto
    qed
  qed
qed

lemma update_loop_settled:
  assumes "\<forall>x\<in>set cs. \<exists>s d. find_one (coll w) s = Some d \<and>
             d\<lparr>dayline := slice_last (dayline d)\<rparr> = x \<and> settled db c d"
  shows "\<exists>w'. update_loop (candle_endpoint db) c (utc_midnight c - ms_per_day) v cs w
                 = Some (w', Inr ())
              \<and> coll w' = coll w \<and> writes w' = writes w"
  using assms
proof (induction cs arbitrary: w v)
  case Nil
  then show ?case by simp
next
  case (Cons x rest)
  from Cons.prems obtain s d where d: "find_one (coll w) s = Some d"
    "d\<lparr>dayline := slice_last (dayline d)\<rparr> = x" "settled db c d" by auto
  from find_one_symbol [OF d(1)] d(2) have sx: "symbol x = Some s" by auto
  from settled_cycle [OF d(3,1)] d(2) obtain w1
    where w1: "update_asset (candle_endpoint db) c (utc_midnight c - ms_per_day) s x w
                 = Some (w1, Inr ())" "coll w1 = coll w" "writes w1 = writes w"
    by auto
  from Cons.prems w1(2)
  have "\<forall>x\<in>set rest. \<exists>s d. find_one (coll w1) s = Some d \<and>
             d\<lparr>dayline := slice_last (dayline d)\<rparr> = x \<and> settled db c d"
    by simp
  from Cons.IH [OF this, of "Some s"] obtain w'
    where "update_loop (candle_endpoint db) c (utc_midnight c - ms_per_day) (Some s) rest w1
                 = Some (w', Inr ())" "coll w' = coll w1" "writes w' = writes w1"
    by auto
  with sx w1 show ?case by simp
qed

text \<open>
  Claim C4, amended.  Against an exchange that answers from a fixed candle history
  (open times strictly increasing per symbol), on a collection whose documents have
  distinct symbols and with the same clock: if a run of \<open>update_crypto_daily\<close> returns,
  then a second run from the world it left returns normally, leaves the collection as
  it is and issues no write.
\<close>

theorem second_update_writes_nothing:
  assumes wf: "well_formed (coll w)"
    and sorted: "\<forall>s. sorted_wrt (<) (map open_time (db s))"
    and run: "update_crypto_daily (candle_endpoint db) c w = Some (w1, r1)"
  shows "\<exists>w2. update_crypto_daily (candle_endpoint db) c w1 = Some (w2, Inr ())
              \<and> coll w2 = coll w1 \<and> writes w2 = writes w1"
proof -
  let ?proj = "\<lambda>d. d\<lparr>dayline := slice_last (dayline d)\<rparr>"
  let ?y = "utc_midnight c - ms_per_day"
  from run have run1: "update_loop (candle_endpoint db) c ?y None (map ?proj (coll w)) w
      = Some (w1, r1)"
    by (simp add: update_crypto_daily_def Let_def)
  have syms: "map symbol (map ?proj (coll w)) = map symbol (coll w)" by (simp add: comp_def)
  have a: "\<forall>x\<in>set (map ?proj (coll w)). symbol x \<noteq> None"
    using wf by (auto simp: well_formed_def)
  have b: "distinct (map symbol (map ?proj (coll w)))"
    using wf unfolding syms by (simp add: well_formed_def)
  have st: "\<forall>x\<in>set (map ?proj (coll w)). \<forall>s. symbol x = Some s \<longrightarrow>
           (\<exists>d. find_one (coll w) s = Some d \<and> ?proj d = x)"
  proof (intro ballI allI impI)
    fix x s assume "x \<in> set (map ?proj (coll w))" "symbol x = Some s"
    then obtain d' where d': "d' \<in> set (coll w)" "x = ?proj d'" "symbol d' = Some s" by auto
    from find_one_well_formed [OF wf d'(1,3)] d'(2)
    show "\<exists>d. find_one (coll w) s = Some d \<and> ?proj d = x" by simp
  qed
  note settles = update_loop_settles [OF run1 a b st sorted]
  from update_loop_frame [OF run1] have syms1: "map symbol (coll w1) = map symbol (coll w)"
    by simp
  with wf have wf1: "well_formed (coll w1)"
    unfolding well_formed_def by (metis (no_types, lifting) imageI list.set_map image_iff)
  have "\<forall>x\<in>set (map ?proj (coll w1)). \<exists>s d. find_one (coll w1) s = Some d \<and>
             ?proj d = x \<and> settled db c d"
  proof
    fix x assume "x \<in> set (map ?proj (coll w1))"
    then obtain d1 where d1: "d1 \<in> set (coll w1)" "x = ?proj d1" by auto
    with wf1 obtain s where s: "symbol d1 = Some s" by (auto simp: well_formed_def)
    from find_one_well_formed [OF wf1 d1(1) s] have f: "find_one (coll w1) s = Some d1" .
    from d1(1) s have "Some s \<in> set (map symbol (coll w1))" by force
    with syms1 have "Some s \<in> set (map symbol (coll w))" by simp
    then obtain d0 where "d0 \<in> set (coll w)" "symbol d0 = Some s" by auto
    then have "?proj d0 \<in> set (map ?proj (coll w))" "symbol (?proj d0) = Some s" by simp_all
    with settles f have "settled db c d1" by fastforce
    with f d1(2) show "\<exists>s d. find_one (coll w1) s = Some d \<and> ?proj d = x \<and> settled db c d"
      by blast
  qed
  from update_loop_settled [OF this, of None]
  show ?thesis by (simp add: update_crypto_daily_def Let_def)
qed

lemma ex_db_sorted: "\<forall>s. sorted_wrt (<) (map open_time (ex_db s))"
  by (simp add: ex_db_def ex_kline_def)

lemma ex_second_runs:
  "update_crypto_daily (candle_endpoint ex_db) ex_clock (ex_world [ex_stale ''BTCUSDT''])
     = Some (ex_after_update, Inr ())"
  "update_crypto_daily (candle_endpoint ex_db) ex_clock ex_after_update
     = Some (ex_after_update, Inr ())"
  "update_crypto_daily (candle_endpoint ex_db) ex_clock (ex_world [ex_new ''ETHUSDT''])
     = Some ((ex_world [ex_new ''ETHUSDT''])\<lparr>net := ex_unlisted\<rparr>, Inr ())"
  "update_crypto_daily (candle_endpoint ex_db) ex_clock
       ((ex_world [ex_new ''ETHUSDT''])\<lparr>net := ex_unlisted\<rparr>)
     = Some ((ex_world [ex_new ''ETHUSDT''])\<lparr>net := ex_unlisted @ ex_unlisted\<rparr>, Inr ())"
  by (simp_all add: update_crypto_daily_def ex_run_simps ex_after_update_def ex_new_def
        ex_unlisted_def)

theorem second_update_writes_nothing_witness:
  "well_formed (coll (ex_world [ex_stale ''BTCUSDT'']))
   \<and> (\<forall>s. sorted_wrt (<) (map open_time (ex_db s)))
   \<and> update_crypto_daily (candle_endpoint ex_db) ex_clock (ex_world [ex_stale ''BTCUSDT''])
       = Some (ex_after_update, Inr ())
   \<and> (\<exists>w2. update_crypto_daily (candle_endpoint ex_db) ex_clock ex_after_update
               = Some (w2, Inr ())
            \<and> coll w2 = coll ex_after_update \<and> writes w2 = writes ex_after_update)"
proof -
  have wf: "well_formed (coll (ex_world [ex_stale ''BTCUSDT'']))"
    by (simp add: well_formed_def ex_world_def ex_stale_def ex_doc_def)
  from second_update_writes_nothing [OF wf ex_db_sorted ex_second_runs(1)]
    wf ex_db_sorted ex_second_runs(1)
  show ?thesis by simp
qed

lemma ex_halted_runs:
  "update_crypto_daily (candle_endpoint ex_halted) ex_clock (ex_world [ex_stale ''BTCUSDT''])
     = Some ((ex_world [ex_stale ''BTCUSDT''])\<lparr>net := [ex_request ''BTCUSDT'', Sleep 1]\<rparr>, Inr ())"
  "update_crypto_daily (candle_endpoint ex_halted) ex_clock
       ((ex_world [ex_stale ''BTCUSDT''])\<lparr>net := [ex_request ''BTCUSDT'', Sleep 1]\<rparr>)
     = Some ((ex_world [ex_stale ''BTCUSDT''])
               \<lparr>net := [ex_request ''BTCUSDT'', Sleep 1, ex_request ''BTCUSDT'', Sleep 1]\<rparr>, Inr ())"
  by (simp_all add: update_crypto_daily_def ex_run_simps ex_halted_def)

text \<open>
  Claim C4 as stated does not hold: a first run need not leave every asset fresh.  An
  asset for which the exchange has no candle stays without history, and an asset whose
  candles end two days ago keeps its last date; the second run classifies neither as
  fresh and fetches again for both (two more requests for the first, one more for the
  second), and writes nothing.
\<close>

theorem not_every_asset_fresh_counterexample:
  "update_crypto_daily (candle_endpoint ex_db) ex_clock (ex_world [ex_new ''ETHUSDT''])
     = Some ((ex_world [ex_new ''ETHUSDT''])\<lparr>net := ex_unlisted\<rparr>, Inr ())
   \<and> \<not> is_fresh (utc_midnight ex_clock - ms_per_day)
         ((ex_new ''ETHUSDT'')\<lparr>dayline := slice_last (dayline (ex_new ''ETHUSDT''))\<rparr>)
   \<and> update_crypto_daily (candle_endpoint ex_db) ex_clock
       ((ex_world [ex_new ''ETHUSDT''])\<lparr>net := ex_unlisted\<rparr>)
     = Some ((ex_world [ex_new ''ETHUSDT''])\<lparr>net := ex_unlisted @ ex_unlisted\<rparr>, Inr ())
   \<and> request_count ex_unlisted = 2
   \<and> request_count (ex_unlisted @ ex_unlisted) = 4
   \<and> update_crypto_daily (candle_endpoint ex_halted) ex_clock (ex_world [ex_stale ''BTCUSDT''])
     = Some ((ex_world [ex_stale ''BTCUSDT''])\<lparr>net := [ex_request ''BTCUSDT'', Sleep 1]\<rparr>, Inr ())
   \<and> \<not> is_fresh (utc_midnight ex_clock - ms_per_day)
         ((ex_stale ''BTCUSDT'')\<lparr>dayline := slice_last (dayline (ex_stale ''BTCUSDT''))\<rparr>)
   \<and> update_crypto_daily (candle_endpoint ex_halted) ex_clock
       ((ex_world [ex_stale ''BTCUSDT''])\<lparr>net := [ex_request ''BTCUSDT'', Sleep 1]\<rparr>)
     = Some ((ex_world [ex_stale ''BTCUSDT''])
               \<lparr>net := [ex_request ''BTCUSDT'', Sleep 1, ex_request ''BTCUSDT'', Sleep 1]\<rparr>, Inr ())"
  using ex_second_runs(3,4) ex_halted_runs
  by (simp add: is_fresh_def ex_new_def ex_stale_def ex_doc_def ex_bar_def ex_unlisted_def
        ms_per_day_def)

section \<open>Failures of one asset\<close>




























end
